theory Spec2Isabelle
  imports
    Complex_Main
    "HOL-Library.Log_Nat"
    "HOL-Library.Char_ord"
    "HOL-Library.List_Lexorder"
    "HOL-Library.AList"
begin

section \<open>JavaScript numbers\<close>

text \<open>
  The grade report generator (\<^verbatim>\<open>src/src/App.js\<close>, and its earlier variant
  \<^verbatim>\<open>src/unnamed/part_000\<close>) computes with JavaScript numbers, which are IEEE 754
  binary64 values. A number is \<open>NaN\<close>, one of the two infinities, or a finite value; the
  finite values are carried as the real numbers they denote. The two zeros are identified:
  the program never divides by a grade, and every other operation it uses (\<open>+\<close>,
  comparison, \<open>Math.max\<close>, \<open>toFixed\<close>, display) gives the same observable result on
  \<open>-0\<close> and \<open>+0\<close>.

  Every arithmetic operation computes the exact result and rounds it to the
  nearest binary64 value, ties to even (\<open>fl\<close>), overflowing to an infinity.
\<close>

datatype jsnum = NaN | PInf | NInf | Fin real

definition pow2 :: "int \<Rightarrow> real" where
  "pow2 e = (if 0 \<le> e then 2 ^ nat e else 1 / 2 ^ nat (- e))"

text \<open>
  \<open>ilog2 a\<close> is the binary exponent of a positive number, \<open>2^e \<le> a < 2^(e+1)\<close>: one less
  than the bit length of \<open>\<lfloor>a\<rfloor>\<close> when \<open>1 \<le> a\<close>, and otherwise minus the least \<open>k\<close> with
  \<open>1 / a \<le> 2^k\<close>.
\<close>

definition ilog2 :: "real \<Rightarrow> int" where
  "ilog2 a = (if 1 \<le> a then bitlen \<lfloor>a\<rfloor> - 1 else - bitlen (\<lceil>1 / a\<rceil> - 1))"

definition round_half_even :: "real \<Rightarrow> int" where
  "round_half_even x =
     (let f = \<lfloor>x\<rfloor>; r = x - of_int f
      in if r < 1 / 2 then f else if 1 / 2 < r then f + 1 else if even f then f else f + 1)"

text \<open>
  Rounding to binary64: 53 significant bits, least exponent \<open>-1022\<close> (below it the spacing
  stays \<open>2^-1074\<close>, the subnormal range), and a rounded magnitude of \<open>2^1024\<close> or more
  is an infinity.
\<close>

definition fl :: "real \<Rightarrow> jsnum" where
  "fl q =
     (if q = 0 then Fin 0
      else let a = \<bar>q\<bar>;
               e = max (ilog2 a) (- 1022);
               ulp = pow2 (e - 52);
               r = of_int (round_half_even (a / ulp)) * ulp
           in if pow2 1024 \<le> r then (if q < 0 then NInf else PInf)
              else Fin (if q < 0 then - r else r))"

definition isFinite :: "jsnum \<Rightarrow> bool" where
  "isFinite x = (case x of Fin _ \<Rightarrow> True | _ \<Rightarrow> False)"

definition isNaN :: "jsnum \<Rightarrow> bool" where
  "isNaN x = (x = NaN)"

fun js_neg :: "jsnum \<Rightarrow> jsnum" where
  "js_neg NaN = NaN"
| "js_neg PInf = NInf"
| "js_neg NInf = PInf"
| "js_neg (Fin a) = Fin (- a)"

fun js_add :: "jsnum \<Rightarrow> jsnum \<Rightarrow> jsnum" where
  "js_add (Fin a) (Fin b) = fl (a + b)"
| "js_add NaN _ = NaN"
| "js_add _ NaN = NaN"
| "js_add PInf NInf = NaN"
| "js_add NInf PInf = NaN"
| "js_add PInf _ = PInf"
| "js_add _ PInf = PInf"
| "js_add NInf _ = NInf"
| "js_add _ NInf = NInf"

definition js_sub :: "jsnum \<Rightarrow> jsnum \<Rightarrow> jsnum" where
  "js_sub x y = js_add x (js_neg y)"

text \<open>The sign of a product or quotient with an infinite operand.\<close>

definition signed_inf :: "bool \<Rightarrow> jsnum" where
  "signed_inf negative = (if negative then NInf else PInf)"

fun js_mul :: "jsnum \<Rightarrow> jsnum \<Rightarrow> jsnum" where
  "js_mul (Fin a) (Fin b) = fl (a * b)"
| "js_mul NaN _ = NaN"
| "js_mul _ NaN = NaN"
| "js_mul PInf (Fin b) = (if b = 0 then NaN else signed_inf (b < 0))"
| "js_mul NInf (Fin b) = (if b = 0 then NaN else signed_inf (0 < b))"
| "js_mul (Fin a) PInf = (if a = 0 then NaN else signed_inf (a < 0))"
| "js_mul (Fin a) NInf = (if a = 0 then NaN else signed_inf (0 < a))"
| "js_mul PInf PInf = PInf"
| "js_mul NInf NInf = PInf"
| "js_mul PInf NInf = NInf"
| "js_mul NInf PInf = NInf"

text \<open>
  Division. The only divisors in the program are array lengths that have been checked
  to be nonzero; a zero divisor is read as \<open>+0\<close>.
\<close>

fun js_div :: "jsnum \<Rightarrow> jsnum \<Rightarrow> jsnum" where
  "js_div (Fin a) (Fin b) =
     (if b = 0 then (if a = 0 then NaN else signed_inf (a < 0)) else fl (a / b))"
| "js_div NaN _ = NaN"
| "js_div _ NaN = NaN"
| "js_div (Fin a) _ = Fin 0"
| "js_div PInf (Fin b) = signed_inf (b < 0)"
| "js_div NInf (Fin b) = signed_inf (\<not> b < 0)"
| "js_div PInf PInf = NaN"
| "js_div PInf NInf = NaN"
| "js_div NInf PInf = NaN"
| "js_div NInf NInf = NaN"

text \<open>
  \<open>Math.pow(x, 2)\<close>: the square, rounded once. (ECMAScript leaves the precision of
  \<open>Math.pow\<close> to the implementation; the correctly rounded square is what \<open>x * x\<close>
  gives.)
\<close>

fun Math_pow2 :: "jsnum \<Rightarrow> jsnum" where
  "Math_pow2 NaN = NaN"
| "Math_pow2 PInf = PInf"
| "Math_pow2 NInf = PInf"
| "Math_pow2 (Fin a) = fl (a * a)"

text \<open>The integer square root, by the digit-by-digit recursion in base 4.\<close>

function isqrt :: "int \<Rightarrow> int" where
  "isqrt n =
     (if n \<le> 0 then 0
      else let r = 2 * isqrt (n div 4) in if (r + 1) * (r + 1) \<le> n then r + 1 else r)"
  by pat_completeness auto
termination
  by (relation "measure nat") auto

declare isqrt.simps [simp del]

text \<open>
  \<open>Math.sqrt\<close>: the square root rounded to the nearest binary64 value. With
  \<open>2^e \<le> sqrt a < 2^(e+1)\<close> and \<open>ulp = 2^(e-52)\<close>, the result is \<open>n * ulp\<close> for the integer
  \<open>n\<close> nearest to \<open>sqrt a / ulp\<close>, which is \<open>(\<lfloor>2 * sqrt (a / ulp^2)\<rfloor> + 1) div 2\<close>.
\<close>

fun Math_sqrt :: "jsnum \<Rightarrow> jsnum" where
  "Math_sqrt NaN = NaN"
| "Math_sqrt PInf = PInf"
| "Math_sqrt NInf = NaN"
| "Math_sqrt (Fin a) =
     (if a < 0 then NaN
      else if a = 0 then Fin 0
      else let e = ilog2 a div 2;
               ulp = pow2 (e - 52);
               k = isqrt \<lfloor>4 * a / (ulp * ulp)\<rfloor>
           in Fin (of_int ((k + 1) div 2) * ulp))"

text \<open>
  The abstract relational comparison \<open>x < y\<close>: undefined (\<open>None\<close>) when an operand is
  \<open>NaN\<close>. \<open>x >= y\<close> is true exactly when \<open>x < y\<close> is defined and false.
\<close>

fun IsLessThan :: "jsnum \<Rightarrow> jsnum \<Rightarrow> bool option" where
  "IsLessThan NaN _ = None"
| "IsLessThan _ NaN = None"
| "IsLessThan (Fin a) (Fin b) = Some (a < b)"
| "IsLessThan NInf NInf = Some False"
| "IsLessThan NInf _ = Some True"
| "IsLessThan _ NInf = Some False"
| "IsLessThan PInf _ = Some False"
| "IsLessThan _ PInf = Some True"

definition js_lt :: "jsnum \<Rightarrow> jsnum \<Rightarrow> bool" where
  "js_lt x y = (IsLessThan x y = Some True)"

definition js_ge :: "jsnum \<Rightarrow> jsnum \<Rightarrow> bool" where
  "js_ge x y = (IsLessThan x y = Some False)"

text \<open>
  \<open>Math.max\<close> and \<open>Math.min\<close> of an argument list: \<open>NaN\<close> if any argument is, and
  \<open>-Infinity\<close> (\<open>+Infinity\<close>) for no argument. (The program spreads the grade array
  into the argument list; the engine's limit on the number of arguments is not modelled.)
\<close>

definition Math_max :: "jsnum list \<Rightarrow> jsnum" where
  "Math_max xs =
     (if NaN \<in> set xs then NaN
      else foldl (\<lambda>highest x. if js_lt highest x then x else highest) NInf xs)"

definition Math_min :: "jsnum list \<Rightarrow> jsnum" where
  "Math_min xs =
     (if NaN \<in> set xs then NaN
      else foldl (\<lambda>lowest x. if js_lt x lowest then x else lowest) PInf xs)"

text \<open>The number of an array length or a count.\<close>

definition num :: "nat \<Rightarrow> jsnum" where
  "num n = Fin (of_nat n)"

section \<open>Strings\<close>

text \<open>
  A string is a list of code units; the characters of \<^typ>\<open>char\<close> stand for the code
  units below 256. White space, as \<open>trim\<close> and \<open>parseFloat\<close> skip it, is then TAB, LF, VT,
  FF, CR, SP and NBSP.
\<close>

definition is_ws :: "char \<Rightarrow> bool" where
  "is_ws c = (c \<in> {CHR 0x09, CHR 0x0A, CHR 0x0B, CHR 0x0C, CHR 0x0D, CHR 0x20, CHR 0xA0})"

definition trim :: "string \<Rightarrow> string" where
  "trim s = rev (dropWhile is_ws (rev (dropWhile is_ws s)))"

text \<open>\<open>s.replace(/c/g, "")\<close> for a single character \<open>c\<close>.\<close>

definition remove_all :: "char \<Rightarrow> string \<Rightarrow> string" where
  "remove_all c s = filter (\<lambda>x. x \<noteq> c) s"

definition is_digit :: "char \<Rightarrow> bool" where
  "is_digit c = (c \<in> set ''0123456789'')"

text \<open>The value of a decimal digit is its position in \<open>0123456789\<close>.\<close>

definition digit_val :: "char \<Rightarrow> int" where
  "digit_val c = int (length (takeWhile (\<lambda>d. d \<noteq> c) ''0123456789''))"

text \<open>The value of a string of decimal digits.\<close>

definition digits_val :: "string \<Rightarrow> int" where
  "digits_val ds = foldl (\<lambda>acc c. 10 * acc + digit_val c) 0 ds"

text \<open>
  The optional exponent part of a decimal literal (\<open>e\<close> or \<open>E\<close>, an optional sign, at
  least one digit): its value, or 0 when the text does not start with an exponent part.
\<close>

definition exponent_part :: "string \<Rightarrow> int" where
  "exponent_part s =
     (case s of
        [] \<Rightarrow> 0
      | c # r \<Rightarrow>
          if c = CHR ''e'' \<or> c = CHR ''E'' then
            (case r of
               [] \<Rightarrow> 0
             | c' # r' \<Rightarrow>
                 if c' = CHR ''-'' then - digits_val (takeWhile is_digit r')
                 else if c' = CHR ''+'' then digits_val (takeWhile is_digit r')
                 else digits_val (takeWhile is_digit r))
          else 0)"

text \<open>
  \<open>parseFloat\<close>: skip leading white space, then read the longest prefix that is a
  signed decimal literal (\<open>Infinity\<close>, or digits with an optional fraction and exponent);
  \<open>NaN\<close> when there is none. The literal's value is rounded to binary64.
\<close>

definition unsigned_literal :: "string \<Rightarrow> real option" where
  "unsigned_literal u =
     (let ip = takeWhile is_digit u;
          r1 = dropWhile is_digit u;
          fp = (case r1 of [] \<Rightarrow> [] | c # r \<Rightarrow> if c = CHR ''.'' then takeWhile is_digit r else []);
          r2 = (case r1 of [] \<Rightarrow> [] | c # r \<Rightarrow> if c = CHR ''.'' then dropWhile is_digit r else r1)
      in if ip = [] \<and> fp = [] then None
         else Some ((of_int (digits_val ip) + of_int (digits_val fp) / 10 ^ length fp)
                    * (if 0 \<le> exponent_part r2 then 10 ^ nat (exponent_part r2)
                       else 1 / 10 ^ nat (- exponent_part r2))))"

definition parseFloat :: "string \<Rightarrow> jsnum" where
  "parseFloat s =
     (let t = dropWhile is_ws s;
          negative = (case t of [] \<Rightarrow> False | c # _ \<Rightarrow> c = CHR ''-'');
          u = (case t of [] \<Rightarrow> [] | c # r \<Rightarrow> if c = CHR ''-'' \<or> c = CHR ''+'' then r else t)
      in if take 8 u = ''Infinity'' then signed_inf negative
         else (case unsigned_literal u of
                 None \<Rightarrow> NaN
               | Some v \<Rightarrow> fl (if negative then - v else v)))"

text \<open>The decimal digits of a nonnegative integer (\<open>0\<close> for zero).\<close>

function digits :: "int \<Rightarrow> string" where
  "digits n =
     (if n < 10 then [''0123456789'' ! nat n]
      else digits (n div 10) @ [''0123456789'' ! nat (n mod 10)])"
  by pat_completeness auto
termination
  by (relation "measure nat") auto

declare digits.simps [simp del]

text \<open>
  \<open>Number.prototype.toString\<close> prints a finite number in its shortest decimal form that
  reads back as the same number. That algorithm is not part of the program; it is a
  parameter \<open>ts\<close> of the model, used where the program converts a numeric group cell to
  its label and where \<open>toFixed\<close> falls back to it for magnitudes of \<open>10^21\<close> and more.
\<close>

definition Number_toString :: "(real \<Rightarrow> string) \<Rightarrow> jsnum \<Rightarrow> string" where
  "Number_toString ts x =
     (case x of NaN \<Rightarrow> ''NaN'' | PInf \<Rightarrow> ''Infinity'' | NInf \<Rightarrow> ''-Infinity'' | Fin q \<Rightarrow> ts q)"

text \<open>
  \<open>x.toFixed(f)\<close>: for a finite \<open>x\<close> below \<open>10^21\<close> in magnitude, the integer \<open>n\<close> for
  which \<open>n / 10^f\<close> is nearest to \<open>\<bar>x\<bar>\<close> (the larger \<open>n\<close> of two), printed with \<open>f\<close> digits
  after the point and a minus sign when \<open>x < 0\<close>.
\<close>

definition toFixed_int :: "nat \<Rightarrow> real \<Rightarrow> int" where
  "toFixed_int f a = \<lfloor>a * 10 ^ f + 1 / 2\<rfloor>"

definition toFixed :: "(real \<Rightarrow> string) \<Rightarrow> nat \<Rightarrow> jsnum \<Rightarrow> string" where
  "toFixed ts f x =
     (case x of
        Fin q \<Rightarrow>
          (let s = (if q < 0 then ''-'' else '''');
               a = \<bar>q\<bar>
           in if 10 ^ 21 \<le> a then s @ ts a
              else let m = digits (toFixed_int f a);
                       m' = (if f \<noteq> 0 \<and> length m \<le> f
                             then replicate (f + 1 - length m) (CHR ''0'') @ m else m)
                   in if f \<noteq> 0
                      then s @ take (length m' - f) m' @ ''.'' @ drop (length m' - f) m'
                      else s @ m')
      | _ \<Rightarrow> Number_toString ts x)"

section \<open>Numeric coercion\<close>

text \<open>
  A cell of an imported row as \<open>XLSX.utils.sheet_to_json\<close> delivers it: \<open>null\<close> (the
  \<open>defval\<close>), a number, a string or a boolean; \<open>Undefined\<close> is what reading an absent
  property gives. A row object is read only through \<open>r[column]\<close>, so it is the function
  from property names to cells.
\<close>

datatype cell = Null | Undefined | NumV jsnum | StrV string | BoolV bool

type_synonym row = "string \<Rightarrow> cell"

definition String_of :: "(real \<Rightarrow> string) \<Rightarrow> cell \<Rightarrow> string" where
  "String_of ts x =
     (case x of
        Null \<Rightarrow> ''null''
      | Undefined \<Rightarrow> ''undefined''
      | NumV n \<Rightarrow> Number_toString ts n
      | StrV s \<Rightarrow> s
      | BoolV b \<Rightarrow> if b then ''true'' else ''false'')"

text \<open>
  \<^verbatim>\<open>
  function parseNumber(x) {
    if (x === null || x === undefined) return NaN;
    if (typeof x === "number") return x;
    const s = String(x).trim().replace(/,/g, "").replace(/%/g, "");
    const v = parseFloat(s);
    return Number.isFinite(v) ? v : NaN;
  }\<close>
\<close>

definition parseNumber :: "(real \<Rightarrow> string) \<Rightarrow> cell \<Rightarrow> jsnum" where
  "parseNumber ts x =
     (if x = Null \<or> x = Undefined then NaN
      else case x of
        NumV n \<Rightarrow> n
      | _ \<Rightarrow>
          (let s = remove_all (CHR ''%'') (remove_all (CHR '','') (trim (String_of ts x)));
               v = parseFloat s
           in if isFinite v then v else NaN))"

section \<open>Threshold normalizer\<close>

text \<open>
  \<^verbatim>\<open>
  const coerceThresholds = () => {
    let p = Number.isFinite(passing) ? passing : 40;
    let m = Number.isFinite(merit) ? merit : 60;
    let d = Number.isFinite(distinction) ? distinction : 70;
    p = Math.max(0, Math.min(100, p));
    m = Math.max(p, Math.min(100, m));
    d = Math.max(m, Math.min(100, d));
    return { p, m, d };
  };\<close>
  The three state variables it reads are its arguments here.
\<close>

definition coerceThresholds :: "jsnum \<Rightarrow> jsnum \<Rightarrow> jsnum \<Rightarrow> jsnum \<times> jsnum \<times> jsnum" where
  "coerceThresholds passing merit distinction =
     (let p0 = (if isFinite passing then passing else Fin 40);
          m0 = (if isFinite merit then merit else Fin 60);
          d0 = (if isFinite distinction then distinction else Fin 70);
          p = Math_max [Fin 0, Math_min [Fin 100, p0]];
          m = Math_max [p, Math_min [Fin 100, m0]];
          d = Math_max [m, Math_min [Fin 100, d0]]
      in (p, m, d))"

section \<open>Aggregation\<close>

text \<open>The coerced rows \<open>{ grade, group }\<close>.\<close>

record coerced_row =
  grade :: jsnum
  group :: string

text \<open>
  \<^verbatim>\<open>
  const rows = data
    .map((r) => ({
      grade: parseNumber(r[gradeCol]),
      group: r[groupCol] === null || r[groupCol] === undefined ? "(missing)" : String(r[groupCol]),
    }))
    .filter((r) => !Number.isNaN(r.grade));\<close>
\<close>

definition coerce_rows :: "(real \<Rightarrow> string) \<Rightarrow> string \<Rightarrow> string \<Rightarrow> row list \<Rightarrow> coerced_row list" where
  "coerce_rows ts gradeCol groupCol data =
     filter (\<lambda>r. \<not> isNaN (grade r))
       (map (\<lambda>r. \<lparr> grade = parseNumber ts (r gradeCol),
                   group = (if r groupCol = Null \<or> r groupCol = Undefined then ''(missing)''
                            else String_of ts (r groupCol)) \<rparr>)
            data)"

text \<open>The threshold-driven counts of the overall summary.\<close>

definition passCount :: "jsnum \<Rightarrow> coerced_row list \<Rightarrow> nat" where
  "passCount p rows = length (filter (\<lambda>r. js_ge (grade r) p) rows)"

definition meritCount :: "jsnum \<Rightarrow> jsnum \<Rightarrow> coerced_row list \<Rightarrow> nat" where
  "meritCount m d rows = length (filter (\<lambda>r. js_ge (grade r) m \<and> js_lt (grade r) d) rows)"

definition distCount :: "jsnum \<Rightarrow> coerced_row list \<Rightarrow> nat" where
  "distCount d rows = length (filter (\<lambda>r. js_ge (grade r) d) rows)"

definition failCount :: "jsnum \<Rightarrow> coerced_row list \<Rightarrow> int" where
  "failCount p rows = int (length rows) - int (passCount p rows)"

text \<open>The fixed band counts.\<close>

definition passBandCount :: "coerced_row list \<Rightarrow> nat" where
  "passBandCount rows =
     length (filter (\<lambda>r. js_ge (grade r) (Fin 40) \<and> js_lt (grade r) (Fin 60)) rows)"

definition meritBandCount :: "coerced_row list \<Rightarrow> nat" where
  "meritBandCount rows =
     length (filter (\<lambda>r. js_ge (grade r) (Fin 60) \<and> js_lt (grade r) (Fin 70)) rows)"

definition distBandCount :: "coerced_row list \<Rightarrow> nat" where
  "distBandCount rows = length (filter (\<lambda>r. js_ge (grade r) (Fin 70)) rows)"

text \<open>
  The rate expression \<open>((count / N) * 100).toFixed(1)\<close>, which the program writes out
  for every rate field.
\<close>

definition percent :: "nat \<Rightarrow> nat \<Rightarrow> jsnum" where
  "percent c n = js_mul (js_div (num c) (num n)) (Fin 100)"

definition rate :: "(real \<Rightarrow> string) \<Rightarrow> nat \<Rightarrow> nat \<Rightarrow> string" where
  "rate ts c n = toFixed ts 1 (percent c n)"

definition overallPassingRateFixed :: "(real \<Rightarrow> string) \<Rightarrow> coerced_row list \<Rightarrow> string" where
  "overallPassingRateFixed ts rows =
     rate ts (length (filter (\<lambda>r. js_ge (grade r) (Fin 40)) rows)) (length rows)"

text \<open>
  \<^verbatim>\<open>
  const grades = rows.map((r) => r.grade);
  const mean = grades.reduce((a, b) => a + b, 0) / grades.length;
  const sd = Math.sqrt(grades.reduce((a, b) => a + Math.pow(b - mean, 2), 0) / grades.length);\<close>
\<close>

definition grades :: "coerced_row list \<Rightarrow> jsnum list" where
  "grades rows = map grade rows"

definition mean :: "jsnum list \<Rightarrow> jsnum" where
  "mean gs = js_div (foldl js_add (Fin 0) gs) (num (length gs))"

definition sd :: "jsnum list \<Rightarrow> jsnum" where
  "sd gs =
     Math_sqrt (js_div (foldl (\<lambda>a b. js_add a (Math_pow2 (js_sub b (mean gs)))) (Fin 0) gs)
                       (num (length gs)))"

text \<open>The summary records, with the fields in the order of the object literals.\<close>

record summary =
  N :: nat
  Passing_Count :: nat
  Failed_Count :: int
  Passing_Rate :: string
  Merit_Rate :: string
  Distinction_Rate :: string
  Overall_Passing_Rate_40 :: string
  Pass_40_59_Count :: nat
  Merit_60_69_Count :: nat
  Distinction_70_Count :: nat
  Mean :: string
  SD :: string
  Max_grade :: jsnum
  Min_grade :: jsnum

record group_summary = summary +
  Group :: string

definition overall_record :: "(real \<Rightarrow> string) \<Rightarrow> jsnum \<Rightarrow> jsnum \<Rightarrow> jsnum \<Rightarrow> coerced_row list \<Rightarrow> summary" where
  "overall_record ts p m d rows =
     \<lparr> N = length rows,
       Passing_Count = passCount p rows,
       Failed_Count = failCount p rows,
       Passing_Rate = rate ts (passCount p rows) (length rows),
       Merit_Rate = rate ts (meritCount m d rows) (length rows),
       Distinction_Rate = rate ts (distCount d rows) (length rows),
       Overall_Passing_Rate_40 = overallPassingRateFixed ts rows,
       Pass_40_59_Count = passBandCount rows,
       Merit_60_69_Count = meritBandCount rows,
       Distinction_70_Count = distBandCount rows,
       Mean = toFixed ts 2 (mean (grades rows)),
       SD = toFixed ts 2 (sd (grades rows)),
       Max_grade = Math_max (grades rows),
       Min_grade = Math_min (grades rows) \<rparr>"

subsection \<open>Grouping\<close>

text \<open>
  \<^verbatim>\<open>
  const groups = {};
  rows.forEach((r) => {
    if (!groups[r.group]) groups[r.group] = [];
    groups[r.group].push(r.grade);
  });\<close>
  \<open>groups\<close> is an ordinary object: its own properties are the arrays created here, in
  creation order, and it inherits the properties of \<open>Object.prototype\<close>. Reading
  \<open>groups[k]\<close> for an inherited name gives a function (or, for \<open>__proto__\<close>, the
  prototype object): a truthy value that has no \<open>push\<close> method, so the call
  \<open>groups[k].push(...)\<close> throws a \<open>TypeError\<close>.
\<close>

definition Object_prototype_names :: "string list" where
  "Object_prototype_names =
     [''constructor'', ''__defineGetter__'', ''__defineSetter__'', ''hasOwnProperty'',
      ''__lookupGetter__'', ''__lookupSetter__'', ''isPrototypeOf'', ''propertyIsEnumerable'',
      ''toString'', ''valueOf'', ''__proto__'', ''toLocaleString'']"

type_synonym groups_object = "(string \<times> jsnum list) list"

definition forEach_step :: "groups_object \<Rightarrow> coerced_row \<Rightarrow> groups_object option" where
  "forEach_step groups r =
     (case map_of groups (group r) of
        Some arr \<Rightarrow> Some (AList.update (group r) (arr @ [grade r]) groups)
      | None \<Rightarrow>
          if group r \<in> set Object_prototype_names then None
          else Some (groups @ [(group r, [grade r])]))"

fun forEach_rows :: "groups_object \<Rightarrow> coerced_row list \<Rightarrow> groups_object option" where
  "forEach_rows groups [] = Some groups"
| "forEach_rows groups (r # rs) =
     (case forEach_step groups r of
        None \<Rightarrow> None
      | Some groups' \<Rightarrow> forEach_rows groups' rs)"

text \<open>
  \<open>Object.keys\<close> lists the own property names: first those that are array indices (the
  decimal form of an integer below \<open>2^32 - 1\<close>) in ascending numeric order, then the
  others in creation order.
\<close>

definition is_array_index :: "string \<Rightarrow> bool" where
  "is_array_index k =
     (k \<noteq> [] \<and> list_all is_digit k \<and> digits (digits_val k) = k
      \<and> digits_val k < 4294967295)"

definition Object_keys :: "groups_object \<Rightarrow> string list" where
  "Object_keys groups =
     sort_key digits_val (filter is_array_index (map fst groups))
     @ filter (\<lambda>k. \<not> is_array_index k) (map fst groups)"

text \<open>\<open>groups[g]\<close> for an own key \<open>g\<close>.\<close>

definition own_property :: "groups_object \<Rightarrow> string \<Rightarrow> jsnum list" where
  "own_property groups g = (case map_of groups g of Some arr \<Rightarrow> arr | None \<Rightarrow> [])"

text \<open>The callback of \<open>Object.keys(groups).sort().map((g) => { ... })\<close>.\<close>

definition group_record :: "(real \<Rightarrow> string) \<Rightarrow> jsnum \<Rightarrow> jsnum \<Rightarrow> jsnum \<Rightarrow> groups_object \<Rightarrow> string \<Rightarrow> group_summary" where
  "group_record ts p m d groups g =
     (let arr = own_property groups g;
          n = length arr;
          pass = length (filter (\<lambda>x. js_ge x p) arr);
          meritN = length (filter (\<lambda>x. js_ge x m \<and> js_lt x d) arr);
          dist = length (filter (\<lambda>x. js_ge x d) arr);
          fail = int n - int pass;
          passBand = length (filter (\<lambda>x. js_ge x (Fin 40) \<and> js_lt x (Fin 60)) arr);
          meritBand = length (filter (\<lambda>x. js_ge x (Fin 60) \<and> js_lt x (Fin 70)) arr);
          distBand = length (filter (\<lambda>x. js_ge x (Fin 70)) arr);
          overallPassFixed = rate ts (length (filter (\<lambda>x. js_ge x (Fin 40)) arr)) n;
          mval = js_div (foldl js_add (Fin 0) arr) (num n);
          s = Math_sqrt (js_div (foldl (\<lambda>a b. js_add a (Math_pow2 (js_sub b mval))) (Fin 0) arr)
                                (num n))
      in \<lparr> N = n,
           Passing_Count = pass,
           Failed_Count = fail,
           Passing_Rate = rate ts pass n,
           Merit_Rate = rate ts meritN n,
           Distinction_Rate = rate ts dist n,
           Overall_Passing_Rate_40 = overallPassFixed,
           Pass_40_59_Count = passBand,
           Merit_60_69_Count = meritBand,
           Distinction_70_Count = distBand,
           Mean = toFixed ts 2 mval,
           SD = toFixed ts 2 s,
           Max_grade = Math_max arr,
           Min_grade = Math_min arr,
           Group = g \<rparr>)"

definition groupArr :: "(real \<Rightarrow> string) \<Rightarrow> jsnum \<Rightarrow> jsnum \<Rightarrow> jsnum \<Rightarrow> groups_object \<Rightarrow> group_summary list" where
  "groupArr ts p m d groups = map (group_record ts p m d groups) (sort (Object_keys groups))"

section \<open>The earlier variant of the generator\<close>

text \<open>
  \<^verbatim>\<open>src/unnamed/part_000\<close> is an earlier variant of the same component. Its
  \<open>parseNumber\<close> and its row preparation are the text of \<^verbatim>\<open>App.js\<close>, so
  \<open>parseNumber\<close> and \<open>coerce_rows\<close> above stand for both. It has no threshold
  normalizer (the counts compare with the state variables \<open>passing\<close>, \<open>merit\<close> and
  \<open>distinction\<close> as they are), no fixed bands, and it does not sort the group keys.
  Its definitions carry the suffix \<open>0\<close>.
\<close>

definition passCount0 :: "jsnum \<Rightarrow> coerced_row list \<Rightarrow> nat" where
  "passCount0 passing rows = length (filter (\<lambda>r. js_ge (grade r) passing) rows)"

definition meritCount0 :: "jsnum \<Rightarrow> jsnum \<Rightarrow> coerced_row list \<Rightarrow> nat" where
  "meritCount0 merit distinction rows =
     length (filter (\<lambda>r. js_ge (grade r) merit \<and> js_lt (grade r) distinction) rows)"

definition distCount0 :: "jsnum \<Rightarrow> coerced_row list \<Rightarrow> nat" where
  "distCount0 distinction rows = length (filter (\<lambda>r. js_ge (grade r) distinction) rows)"

definition failCount0 :: "jsnum \<Rightarrow> coerced_row list \<Rightarrow> int" where
  "failCount0 passing rows = int (length rows) - int (passCount0 passing rows)"

definition grades0 :: "coerced_row list \<Rightarrow> jsnum list" where
  "grades0 rows = map grade rows"

definition mean0 :: "jsnum list \<Rightarrow> jsnum" where
  "mean0 gs = js_div (foldl js_add (Fin 0) gs) (num (length gs))"

definition sd0 :: "jsnum list \<Rightarrow> jsnum" where
  "sd0 gs =
     Math_sqrt (js_div (foldl (\<lambda>a b. js_add a (Math_pow2 (js_sub b (mean0 gs)))) (Fin 0) gs)
                       (num (length gs)))"

record summary0 =
  N0 :: nat
  Passing_Count0 :: nat
  Failed_Count0 :: int
  Passing_Rate0 :: string
  Merit_Rate0 :: string
  Distinction_Rate0 :: string
  Mean0 :: string
  SD0 :: string
  Max_grade0 :: jsnum
  Min_grade0 :: jsnum

record group_summary0 = summary0 +
  Group0 :: string

definition overall_record0 :: "(real \<Rightarrow> string) \<Rightarrow> jsnum \<Rightarrow> jsnum \<Rightarrow> jsnum \<Rightarrow> coerced_row list \<Rightarrow> summary0" where
  "overall_record0 ts passing merit distinction rows =
     \<lparr> N0 = length rows,
       Passing_Count0 = passCount0 passing rows,
       Failed_Count0 = failCount0 passing rows,
       Passing_Rate0 = toFixed ts 1 (js_mul (js_div (num (passCount0 passing rows)) (num (length rows))) (Fin 100)),
       Merit_Rate0 = toFixed ts 1 (js_mul (js_div (num (meritCount0 merit distinction rows)) (num (length rows))) (Fin 100)),
       Distinction_Rate0 = toFixed ts 1 (js_mul (js_div (num (distCount0 distinction rows)) (num (length rows))) (Fin 100)),
       Mean0 = toFixed ts 2 (mean0 (grades0 rows)),
       SD0 = toFixed ts 2 (sd0 (grades0 rows)),
       Max_grade0 = Math_max (grades0 rows),
       Min_grade0 = Math_min (grades0 rows) \<rparr>"

definition group_record0 :: "(real \<Rightarrow> string) \<Rightarrow> jsnum \<Rightarrow> jsnum \<Rightarrow> jsnum \<Rightarrow> groups_object \<Rightarrow> string \<Rightarrow> group_summary0" where
  "group_record0 ts passing merit distinction groups g =
     (let arr = own_property groups g;
          n = length arr;
          pass = length (filter (\<lambda>x. js_ge x passing) arr);
          meritN = length (filter (\<lambda>x. js_ge x merit \<and> js_lt x distinction) arr);
          dist = length (filter (\<lambda>x. js_ge x distinction) arr);
          fail = int n - int pass;
          m = js_div (foldl js_add (Fin 0) arr) (num n);
          s = Math_sqrt (js_div (foldl (\<lambda>a b. js_add a (Math_pow2 (js_sub b m))) (Fin 0) arr)
                                (num n))
      in \<lparr> N0 = n,
           Passing_Count0 = pass,
           Failed_Count0 = fail,
           Passing_Rate0 = toFixed ts 1 (js_mul (js_div (num pass) (num n)) (Fin 100)),
           Merit_Rate0 = toFixed ts 1 (js_mul (js_div (num meritN) (num n)) (Fin 100)),
           Distinction_Rate0 = toFixed ts 1 (js_mul (js_div (num dist) (num n)) (Fin 100)),
           Mean0 = toFixed ts 2 m,
           SD0 = toFixed ts 2 s,
           Max_grade0 = Math_max arr,
           Min_grade0 = Math_min arr,
           Group0 = g \<rparr>)"

text \<open>\<open>Object.keys(groups).map((g) => { ... })\<close>: the keys are not sorted.\<close>

definition groupArr0 :: "(real \<Rightarrow> string) \<Rightarrow> jsnum \<Rightarrow> jsnum \<Rightarrow> jsnum \<Rightarrow> groups_object \<Rightarrow> group_summary0 list" where
  "groupArr0 ts passing merit distinction groups =
     map (group_record0 ts passing merit distinction groups) (Object_keys groups)"

section \<open>The generate action\<close>

text \<open>
  The component state that \<open>generateReport\<close> reads and sets. The summaries are type
  parameters, since the two variants of the program build different records.
\<close>

record ('o, 'g) app_state =
  data :: "row list"
  gradeCol :: string
  groupCol :: string
  title :: string
  passing :: jsnum
  merit :: jsnum
  distinction :: jsnum
  overallSummary :: "'o list"
  groupSummary :: "'g list"
  reportGenerated :: bool

text \<open>
  How a call ends: with an \<open>alert\<close>, silently after the user declined the default
  title, with the \<open>TypeError\<close> of the grouping loop, or after setting both summaries.
\<close>

datatype outcome = Alert string | Declined | TypeError | Generated

text \<open>
  \<open>generateReport\<close> of \<^verbatim>\<open>src/src/App.js\<close>. \<open>ok\<close> is the answer of \<open>window.confirm\<close>,
  asked only when the title is blank. The state returned holds every \<open>set...\<close> call made
  before the function ended.
\<close>

definition generateReport ::
  "(real \<Rightarrow> string) \<Rightarrow> bool \<Rightarrow> (summary, group_summary) app_state
     \<Rightarrow> outcome \<times> (summary, group_summary) app_state" where
  "generateReport ts ok st =
     (if data st = [] then (Alert ''Please upload a data file first.'', st)
      else if gradeCol st = [] then (Alert ''Please select a Grade column.'', st)
      else if groupCol st = [] then (Alert ''Please select a Group column.'', st)
      else if trim (title st) = [] \<and> \<not> ok then (Declined, st)
      else
        let st1 = (if trim (title st) = []
                   then st\<lparr>title := ''Mid-Term Politics Grades Report''\<rparr> else st);
            (p, m, d) = coerceThresholds (passing st) (merit st) (distinction st);
            rows = coerce_rows ts (gradeCol st) (groupCol st) (data st)
        in if length rows = 0
           then (Alert ''No numeric grades found in selected Grade column.'', st1)
           else
             let st2 = st1\<lparr>overallSummary := [overall_record ts p m d rows]\<rparr>
             in case forEach_rows [] rows of
                  None \<Rightarrow> (TypeError, st2)
                | Some groups \<Rightarrow>
                    (Generated,
                     st2\<lparr>groupSummary := groupArr ts p m d groups, reportGenerated := True\<rparr>))"

text \<open>\<open>generateReport\<close> of \<^verbatim>\<open>src/unnamed/part_000\<close>.\<close>

definition generateReport0 ::
  "(real \<Rightarrow> string) \<Rightarrow> bool \<Rightarrow> (summary0, group_summary0) app_state
     \<Rightarrow> outcome \<times> (summary0, group_summary0) app_state" where
  "generateReport0 ts ok st =
     (if data st = [] then (Alert ''Please upload a data file first.'', st)
      else if gradeCol st = [] then (Alert ''Please select a Grade column.'', st)
      else if groupCol st = [] then (Alert ''Please select a Group column.'', st)
      else if trim (title st) = [] \<and> \<not> ok then (Declined, st)
      else
        let st1 = (if trim (title st) = []
                   then st\<lparr>title := ''Mid-Term Politics Grades Report''\<rparr> else st);
            rows = coerce_rows ts (gradeCol st) (groupCol st) (data st)
        in if length rows = 0
           then (Alert ''No numeric grades found.'', st1)
           else
             let st2 = st1\<lparr>overallSummary :=
                         [overall_record0 ts (passing st) (merit st) (distinction st) rows]\<rparr>
             in case forEach_rows [] rows of
                  None \<Rightarrow> (TypeError, st2)
                | Some groups \<Rightarrow>
                    (Generated,
                     st2\<lparr>groupSummary :=
                           groupArr0 ts (passing st) (merit st) (distinction st) groups,
                         reportGenerated := True\<rparr>))"

section \<open>The worked example of the specification\<close>

text \<open>
  The grades 35, 45, 65 and 75, as numeric cells in two groups, with the default thresholds
  40, 60 and 70 and a title, so that no dialog is shown. \<open>example_rows\<close> is what the row
  preparation makes of them.
\<close>

definition example_data :: "row list" where
  "example_data =
     [\<lambda>k. if k = ''Grade'' then NumV (Fin 35) else StrV ''A'',
      \<lambda>k. if k = ''Grade'' then NumV (Fin 45) else StrV ''A'',
      \<lambda>k. if k = ''Grade'' then NumV (Fin 65) else StrV ''B'',
      \<lambda>k. if k = ''Grade'' then NumV (Fin 75) else StrV ''B'']"

definition example_state :: "(summary, group_summary) app_state" where
  "example_state =
     \<lparr> data = example_data, gradeCol = ''Grade'', groupCol = ''Group'', title = ''Report'',
       passing = Fin 40, merit = Fin 60, distinction = Fin 70,
       overallSummary = [], groupSummary = [], reportGenerated = False \<rparr>"

definition example_rows :: "coerced_row list" where
  "example_rows = [\<lparr> grade = Fin 35, group = ''A'' \<rparr>, \<lparr> grade = Fin 45, group = ''A'' \<rparr>,
                   \<lparr> grade = Fin 65, group = ''B'' \<rparr>, \<lparr> grade = Fin 75, group = ''B'' \<rparr>]"

section \<open>Further concrete inputs\<close>

text \<open>
  Three rows whose grade cell is the text \<open>55.3\<close>, and eighty rows of which 23 have the
  grade 50 and 57 the grade 10.
\<close>

definition equal_grades_data :: "row list" where
  "equal_grades_data =
     [\<lambda>k. if k = ''Grade'' then StrV ''55.3'' else StrV ''A'',
      \<lambda>k. if k = ''Grade'' then StrV ''55.3'' else StrV ''A'',
      \<lambda>k. if k = ''Grade'' then StrV ''55.3'' else StrV ''A'']"

definition boundary_data :: "row list" where
  "boundary_data =
     replicate 23 (\<lambda>k. if k = ''Grade'' then NumV (Fin 50) else StrV ''A'')
     @ replicate 57 (\<lambda>k. if k = ''Grade'' then NumV (Fin 10) else StrV ''A'')"

definition boundary_state :: "(summary, group_summary) app_state" where
  "boundary_state =
     \<lparr> data = boundary_data, gradeCol = ''Grade'', groupCol = ''Group'', title = ''Report'',
       passing = Fin 40, merit = Fin 60, distinction = Fin 70,
       overallSummary = [], groupSummary = [], reportGenerated = False \<rparr>"

section \<open>The rate as the specification words it\<close>

text \<open>
  The specification gives each rate as the count as a percentage of \<open>N\<close>, rounded to one
  decimal place half away from zero. \<open>spec_round_half_away\<close> is that rounding to an integer
  and \<open>spec_rate\<close> the exact percentage so rounded to tenths, printed with one decimal.
  They are compared below with \<open>rate\<close>, which is what the program computes.
\<close>

definition spec_round_half_away :: "real \<Rightarrow> int" where
  "spec_round_half_away x = (if 0 \<le> x then \<lfloor>x + 1 / 2\<rfloor> else - \<lfloor>- x + 1 / 2\<rfloor>)"

definition spec_rate :: "(real \<Rightarrow> string) \<Rightarrow> nat \<Rightarrow> nat \<Rightarrow> string" where
  "spec_rate ts c n =
     toFixed ts 1 (Fin (of_int (spec_round_half_away (100 * of_nat c / of_nat n * 10)) / 10))"

section \<open>Properties of the number model\<close>

text \<open>Powers of two with integer exponents.\<close>

lemma pow2_powi: "pow2 e = 2 powi e"
  by (simp add: pow2_def power_int_def inverse_eq_divide power_one_over)

lemma pow2_pos [simp]: "0 < pow2 e"
  by (simp add: pow2_powi)

lemma pow2_nonneg [simp]: "0 \<le> pow2 e"
  by (simp add: pow2_powi)

lemma pow2_neq_0 [simp]: "pow2 e \<noteq> 0"
  by (simp add: pow2_powi)

lemma pow2_add: "pow2 (a + b) = pow2 a * pow2 b"
  by (simp add: pow2_powi power_int_add)

lemma pow2_diff: "pow2 (a - b) = pow2 a / pow2 b"
  by (simp add: pow2_powi power_int_diff)

lemma pow2_0 [simp]: "pow2 0 = 1"
  by (simp add: pow2_def)

lemma pow2_nat: "pow2 (int n) = 2 ^ n"
  by (simp add: pow2_def)

lemma pow2_strict_mono: "a < b \<Longrightarrow> pow2 a < pow2 b"
  by (simp add: pow2_powi power_int_strict_increasing)

lemma pow2_mono: "a \<le> b \<Longrightarrow> pow2 a \<le> pow2 b"
  by (simp add: pow2_powi power_int_increasing)

lemma pow2_minus: "pow2 (- e) = 1 / pow2 e"
  by (simp add: pow2_powi power_int_minus_divide)

lemma pow2_of_nat_nat: "0 \<le> e \<Longrightarrow> 2 ^ nat e = pow2 e"
  by (simp add: pow2_def)

lemma pow2_less_iff [simp]: "pow2 a < pow2 b \<longleftrightarrow> a < b"
  using pow2_strict_mono[of a b] pow2_mono[of b a] by (auto simp: not_less[symmetric])

lemma pow2_le_iff [simp]: "pow2 a \<le> pow2 b \<longleftrightarrow> a \<le> b"
  using pow2_strict_mono[of b a] pow2_mono[of a b] by (auto simp: not_le[symmetric])

lemma pow2_1 [simp]: "pow2 1 = 2"
  by (simp add: pow2_def)

lemma pow2_m1: "pow2 (- 1) = 1 / 2"
  by (simp add: pow2_def)

lemma pow2_Suc: "pow2 (e + 1) = 2 * pow2 e"
  by (simp add: pow2_add)

text \<open>The binary exponent brackets its argument, and is the only integer that does.\<close>

lemma ilog2_lower: assumes "0 < a" shows "pow2 (ilog2 a) \<le> a"
proof (cases "1 \<le> a")
  case True
  then have x: "0 < \<lfloor>a\<rfloor>" by simp
  from bitlen_bounds[OF x] have "2 ^ nat (bitlen \<lfloor>a\<rfloor> - 1) \<le> \<lfloor>a\<rfloor>" by simp
  then have "(2::real) ^ nat (bitlen \<lfloor>a\<rfloor> - 1) \<le> of_int \<lfloor>a\<rfloor>"
    by (metis of_int_le_iff of_int_numeral of_int_power)
  also have "\<dots> \<le> a" by simp
  finally have "2 ^ nat (bitlen \<lfloor>a\<rfloor> - 1) \<le> a" .
  moreover have "1 \<le> bitlen \<lfloor>a\<rfloor>" using x by (simp add: bitlen_alt_def)
  ultimately show ?thesis using True by (simp add: ilog2_def pow2_def)
next
  case False
  define y where "y = \<lceil>1 / a\<rceil> - 1"
  have b: "1 < 1 / a" using False assms by simp
  then have y: "0 < y" unfolding y_def by linarith
  from bitlen_bounds[OF y] have "y < 2 ^ nat (bitlen y)" by simp
  then have "y + 1 \<le> 2 ^ nat (bitlen y)" by simp
  then have "of_int (y + 1) \<le> (2::real) ^ nat (bitlen y)"
    by (metis of_int_le_iff of_int_numeral of_int_power)
  moreover have "1 / a \<le> of_int (y + 1)" unfolding y_def by simp
  ultimately have "1 / a \<le> 2 ^ nat (bitlen y)" by linarith
  then have "1 / 2 ^ nat (bitlen y) \<le> a"
    using assms by (simp add: field_simps)
  then have "pow2 (- bitlen y) \<le> a"
    by (simp add: pow2_minus pow2_of_nat_nat bitlen_nonneg)
  then show ?thesis using False
    by (simp add: ilog2_def y_def[symmetric])
qed

lemma ilog2_upper: assumes "0 < a" shows "a < pow2 (ilog2 a + 1)"
proof (cases "1 \<le> a")
  case True
  then have x: "0 < \<lfloor>a\<rfloor>" by simp
  from bitlen_bounds[OF x] have "\<lfloor>a\<rfloor> + 1 \<le> 2 ^ nat (bitlen \<lfloor>a\<rfloor>)" by simp
  then have "of_int (\<lfloor>a\<rfloor> + 1) \<le> (2::real) ^ nat (bitlen \<lfloor>a\<rfloor>)"
    by (metis of_int_le_iff of_int_numeral of_int_power)
  moreover have "a < of_int (\<lfloor>a\<rfloor> + 1)" by linarith
  ultimately have "a < 2 ^ nat (bitlen \<lfloor>a\<rfloor>)" by linarith
  moreover have "0 \<le> bitlen \<lfloor>a\<rfloor>" by (rule bitlen_nonneg)
  ultimately show ?thesis using True by (simp add: ilog2_def pow2_def)
next
  case False
  define y where "y = \<lceil>1 / a\<rceil> - 1"
  have b: "1 < 1 / a" using False assms by simp
  then have y: "0 < y" unfolding y_def by linarith
  have k: "1 \<le> bitlen y" using y by (simp add: bitlen_alt_def)
  from bitlen_bounds[OF y] have "2 ^ nat (bitlen y - 1) \<le> y" by simp
  then have "(2::real) ^ nat (bitlen y - 1) \<le> of_int y"
    by (metis of_int_le_iff of_int_numeral of_int_power)
  moreover have "of_int y < 1 / a" unfolding y_def by linarith
  ultimately have "2 ^ nat (bitlen y - 1) < 1 / a" by linarith
  then have "a < 1 / 2 ^ nat (bitlen y - 1)"
    using assms by (simp add: field_simps)
  then have "a < 1 / pow2 (bitlen y - 1)"
    using k by (simp add: pow2_of_nat_nat)
  then have "a < pow2 (- (bitlen y - 1))"
    by (simp only: pow2_minus)
  then show ?thesis using False
    by (simp add: ilog2_def y_def[symmetric] algebra_simps)
qed

lemma ilog2_unique:
  assumes "pow2 e \<le> a" "a < pow2 (e + 1)"
  shows "ilog2 a = e"
proof -
  have a: "0 < a" using assms(1) pow2_pos[of e] by linarith
  have "pow2 e < pow2 (ilog2 a + 1)" using assms(1) ilog2_upper[OF a] by linarith
  moreover have "pow2 (ilog2 a) < pow2 (e + 1)" using assms(2) ilog2_lower[OF a] by linarith
  ultimately show ?thesis by simp
qed

text \<open>Rounding to the nearest integer, ties to even: it is within one half of its argument.\<close>

lemma round_half_even_of_int [simp]: "round_half_even (of_int n) = n"
  by (simp add: round_half_even_def)

lemma round_half_even_err: "\<bar>of_int (round_half_even x) - x\<bar> \<le> 1 / 2"
  unfolding round_half_even_def Let_def by (auto split: if_splits)

lemma round_half_even_eqI:
  assumes "\<bar>x - of_int n\<bar> < 1 / 2"
  shows "round_half_even x = n"
proof -
  have "\<bar>of_int (round_half_even x) - x\<bar> \<le> 1 / 2" by (rule round_half_even_err)
  with assms have "\<bar>(of_int (round_half_even x) :: real) - of_int n\<bar> < 1" by linarith
  then have "\<bar>round_half_even x - n\<bar> < 1"
    by (metis of_int_abs of_int_diff of_int_less_1_iff)
  then show ?thesis by linarith
qed

lemma round_half_even_nonneg: "0 \<le> x \<Longrightarrow> 0 \<le> round_half_even x"
  unfolding round_half_even_def Let_def by (auto split: if_splits)

lemma round_half_even_le:
  assumes "x \<le> of_int n"
  shows "round_half_even x \<le> n"
proof (rule ccontr)
  assume "\<not> round_half_even x \<le> n"
  then have "n + 1 \<le> round_half_even x" by simp
  then have "of_int n + 1 \<le> (of_int (round_half_even x) :: real)" by linarith
  moreover have "\<lfloor>x\<rfloor> \<le> n" using assms by (simp add: floor_le_iff)
  ultimately show False
    using assms unfolding round_half_even_def Let_def
    by (auto split: if_splits)
qed

lemma round_half_even_ge:
  assumes "of_int n \<le> x"
  shows "n \<le> round_half_even x"
proof -
  have "n \<le> \<lfloor>x\<rfloor>" using assms by (simp add: le_floor_iff)
  then show ?thesis unfolding round_half_even_def Let_def by (auto split: if_splits)
qed

text \<open>Rounding to binary64: symmetry in the sign, and the definition for positive arguments.\<close>

lemma fl_0 [simp]: "fl 0 = Fin 0"
  by (simp add: fl_def)

lemma fl_minus: "fl (- q) = js_neg (fl q)"
  by (cases "q = 0"; cases "q < 0") (auto simp: fl_def Let_def)

lemma fl_not_NaN [simp]: "fl q \<noteq> NaN"
  by (auto simp: fl_def Let_def)

lemma fl_pos:
  assumes "0 < q"
  shows "fl q = (let e = max (ilog2 q) (- 1022);
                     r = of_int (round_half_even (q / pow2 (e - 52))) * pow2 (e - 52)
                 in if pow2 1024 \<le> r then PInf else Fin r)"
  using assms by (simp add: fl_def Let_def)

lemma fl_nonneg:
  assumes "0 \<le> q"
  shows "fl q = PInf \<or> (\<exists>r\<ge>0. fl q = Fin r)"
proof (cases "q = 0")
  case True then show ?thesis by simp
next
  case False
  with assms have q: "0 < q" by simp
  define e where "e = max (ilog2 q) (- 1022)"
  have "0 \<le> q / pow2 (e - 52)" using q by simp
  then have "0 \<le> round_half_even (q / pow2 (e - 52))" by (rule round_half_even_nonneg)
  then have "0 \<le> of_int (round_half_even (q / pow2 (e - 52))) * pow2 (e - 52)" by simp
  then show ?thesis using q by (auto simp: fl_pos Let_def e_def[symmetric])
qed

text \<open>Evaluation of a rounding by bounds, in the normal and in the subnormal range.\<close>

lemma fl_eqI:
  assumes e: "pow2 e \<le> q" "q < pow2 (e + 1)" and r: "- 1022 \<le> e"
    and n: "\<bar>q / pow2 (e - 52) - of_int n\<bar> < 1 / 2"
    and o: "of_int n * pow2 (e - 52) < pow2 1024"
  shows "fl q = Fin (of_int n * pow2 (e - 52))"
proof -
  have q: "0 < q" using e(1) pow2_pos[of e] by linarith
  have "ilog2 q = e" using e by (rule ilog2_unique)
  then have m: "max (ilog2 q) (- 1022) = e" using r by simp
  have "round_half_even (q / pow2 (e - 52)) = n" using n by (rule round_half_even_eqI)
  then show ?thesis using o by (simp add: fl_pos[OF q] m Let_def)
qed

lemma fl_subnormal_eqI:
  assumes q: "0 < q" "q < pow2 (- 1022)"
    and n: "\<bar>q / pow2 (- 1074) - of_int n\<bar> < 1 / 2"
    and o: "of_int n * pow2 (- 1074) < pow2 1024"
  shows "fl q = Fin (of_int n * pow2 (- 1074))"
proof -
  have "pow2 (ilog2 q) < pow2 (- 1022)" using ilog2_lower[OF q(1)] q(2) by linarith
  then have m: "max (ilog2 q) (- 1022) = - 1022" by simp
  have "round_half_even (q / pow2 (- 1074)) = n" using n by (rule round_half_even_eqI)
  then show ?thesis using o by (simp add: fl_pos[OF q(1)] m Let_def)
qed

text \<open>In the normal range the rounded value has a significand between \<open>2^52\<close> and \<open>2^53\<close> and does not overflow.\<close>

lemma fl_normal:
  assumes e: "pow2 e \<le> q" "q < pow2 (e + 1)" and r: "- 1022 \<le> e" "e \<le> 1022"
  shows "fl q = Fin (of_int (round_half_even (q / pow2 (e - 52))) * pow2 (e - 52))"
    and "round_half_even (q / pow2 (e - 52)) \<le> 2 ^ 53"
    and "2 ^ 52 \<le> round_half_even (q / pow2 (e - 52))"
proof -
  define n where "n = round_half_even (q / pow2 (e - 52))"
  have q: "0 < q" using e(1) pow2_pos[of e] by linarith
  have "ilog2 q = e" using e by (rule ilog2_unique)
  then have m: "max (ilog2 q) (- 1022) = e" using r by simp
  have "q / pow2 (e - 52) \<le> pow2 (e + 1) / pow2 (e - 52)"
    using e(2) by (simp add: divide_right_mono)
  also have "\<dots> = pow2 53" by (simp add: pow2_diff[symmetric])
  also have "\<dots> = of_int (2 ^ 53)" by (simp add: pow2_def)
  finally show le: "round_half_even (q / pow2 (e - 52)) \<le> 2 ^ 53"
    by (rule round_half_even_le)
  have "of_int (2 ^ 52) = pow2 52" by (simp add: pow2_def)
  also have "\<dots> = pow2 e / pow2 (e - 52)" by (simp add: pow2_diff[symmetric])
  also have "\<dots> \<le> q / pow2 (e - 52)" using e(1) by (simp add: divide_right_mono)
  finally show "2 ^ 52 \<le> round_half_even (q / pow2 (e - 52))"
    by (rule round_half_even_ge)
  have "of_int n * pow2 (e - 52) \<le> of_int (2 ^ 53) * pow2 (e - 52)"
    using le unfolding n_def by (intro mult_right_mono) (simp_all del: of_int_power)
  also have "\<dots> = pow2 53 * pow2 (e - 52)" by (simp add: pow2_def)
  also have "\<dots> = pow2 (e + 1)" by (simp add: pow2_add[symmetric] add.commute)
  also have "\<dots> < pow2 1024" using r by simp
  finally have "\<not> pow2 1024 \<le> of_int n * pow2 (e - 52)" by simp
  then show "fl q = Fin (of_int (round_half_even (q / pow2 (e - 52))) * pow2 (e - 52))"
    by (simp add: fl_pos[OF q] m Let_def n_def)
qed

lemma fl_normal_eqI:
  assumes e: "pow2 e \<le> q" "q < pow2 (e + 1)" and r: "- 1022 \<le> e" "e \<le> 1022"
    and n: "\<bar>q - of_int n * pow2 (e - 52)\<bar> < pow2 (e - 53)"
  shows "fl q = Fin (of_int n * pow2 (e - 52))"
proof -
  have u: "0 < pow2 (e - 52)" by simp
  have "q / pow2 (e - 52) - of_int n = (q - of_int n * pow2 (e - 52)) / pow2 (e - 52)"
    by (simp add: diff_divide_distrib)
  then have "\<bar>q / pow2 (e - 52) - of_int n\<bar> = \<bar>q - of_int n * pow2 (e - 52)\<bar> / pow2 (e - 52)"
    by (simp only: abs_divide abs_of_pos[OF u])
  also have "\<dots> < pow2 (e - 53) / pow2 (e - 52)"
    using n by (simp add: divide_strict_right_mono)
  also have "\<dots> = pow2 (- 1)" by (simp add: pow2_diff[symmetric])
  also have "\<dots> = 1 / 2" by (rule pow2_m1)
  finally have "round_half_even (q / pow2 (e - 52)) = n" by (rule round_half_even_eqI)
  with fl_normal(1)[OF e r] show ?thesis by simp
qed

text \<open>The relative error of a rounding in the normal range is at most \<open>2^-53\<close>.\<close>

lemma fl_rel_err:
  assumes "pow2 (- 1022) \<le> q" "q < pow2 1023"
  obtains r where "fl q = Fin r" "\<bar>r - q\<bar> \<le> q * pow2 (- 53)"
proof -
  have q: "0 < q" using assms(1) pow2_pos[of "- 1022"] by linarith
  define e where "e = ilog2 q"
  have e: "pow2 e \<le> q" "q < pow2 (e + 1)"
    unfolding e_def using q by (rule ilog2_lower, rule ilog2_upper)
  have "pow2 (- 1022) < pow2 (e + 1)" using assms(1) e(2) by linarith
  then have r1: "- 1022 \<le> e" by simp
  have "pow2 e < pow2 1023" using assms(2) e(1) by linarith
  then have r2: "e \<le> 1022" by simp
  define n where "n = round_half_even (q / pow2 (e - 52))"
  have f: "fl q = Fin (of_int n * pow2 (e - 52))"
    unfolding n_def using e r1 r2 by (rule fl_normal(1))
  have u: "0 < pow2 (e - 52)" by simp
  have "of_int n * pow2 (e - 52) - q = (of_int n - q / pow2 (e - 52)) * pow2 (e - 52)"
    by (simp add: left_diff_distrib)
  then have "\<bar>of_int n * pow2 (e - 52) - q\<bar> = \<bar>of_int n - q / pow2 (e - 52)\<bar> * pow2 (e - 52)"
    by (simp only: abs_mult abs_of_pos[OF u])
  also have "\<dots> \<le> (1 / 2) * pow2 (e - 52)"
    unfolding n_def by (intro mult_right_mono round_half_even_err) simp
  also have "\<dots> = pow2 (- 1) * pow2 (e - 52)" by (simp only: pow2_m1)
  also have "\<dots> = pow2 e * pow2 (- 53)" by (simp add: pow2_add[symmetric])
  also have "\<dots> \<le> q * pow2 (- 53)" using e(1) by (simp add: mult_right_mono)
  finally have "\<bar>of_int n * pow2 (e - 52) - q\<bar> \<le> q * pow2 (- 53)" .
  with f show ?thesis by (rule that)
qed

text \<open>Numbers with at most 53 significant bits above \<open>2^-1074\<close> are rounded to themselves.\<close>

lemma fl_exact_pos:
  assumes m: "0 < m" "m < 2 ^ 53" and e: "- 1074 \<le> e" and o: "of_int m * pow2 e < pow2 1024"
  shows "fl (of_int m * pow2 e) = Fin (of_int m * pow2 e)"
proof -
  define q where "q = of_int m * pow2 e"
  have q: "0 < q" unfolding q_def using m(1) by simp
  define E where "E = max (ilog2 q) (- 1022)"
  have "of_int m < (of_int (2 ^ 53) :: real)" using m(2) by (simp del: of_int_power)
  then have "of_int m < pow2 53" by (simp add: pow2_def)
  then have "q < pow2 53 * pow2 e" unfolding q_def by simp
  then have "q < pow2 (53 + e)" by (simp add: pow2_add)
  with ilog2_lower[OF q] have "pow2 (ilog2 q) < pow2 (53 + e)" by linarith
  then have "ilog2 q - 52 \<le> e" by simp
  with e have k: "0 \<le> e - (E - 52)" unfolding E_def by simp
  have "q / pow2 (E - 52) = of_int m * pow2 (e - (E - 52))"
    unfolding q_def by (simp add: pow2_diff)
  also have "\<dots> = of_int m * 2 ^ nat (e - (E - 52))"
    using k by (simp add: pow2_of_nat_nat)
  also have "\<dots> = of_int (m * 2 ^ nat (e - (E - 52)))" by simp
  finally have "round_half_even (q / pow2 (E - 52)) = m * 2 ^ nat (e - (E - 52))"
    by (simp only: round_half_even_of_int)
  then have "of_int (round_half_even (q / pow2 (E - 52))) * pow2 (E - 52)
      = of_int m * (pow2 (e - (E - 52)) * pow2 (E - 52))"
    using k by (simp add: pow2_of_nat_nat)
  also have "\<dots> = q" unfolding q_def by (simp add: pow2_add[symmetric])
  finally show ?thesis
    using o by (simp add: fl_pos[OF q] Let_def E_def[symmetric] q_def[symmetric])
qed

lemma fl_exact:
  assumes m: "\<bar>m\<bar> < 2 ^ 53" and e: "- 1074 \<le> e" and o: "\<bar>of_int m\<bar> * pow2 e < pow2 1024"
  shows "fl (of_int m * pow2 e) = Fin (of_int m * pow2 e)"
proof -
  consider "m = 0" | "0 < m" | "m < 0" by linarith
  then show ?thesis
  proof cases
    case 1 then show ?thesis by simp
  next
    case 2 then show ?thesis using fl_exact_pos[of m e] assms by simp
  next
    case 3
    then have "fl (of_int (- m) * pow2 e) = Fin (of_int (- m) * pow2 e)"
      using fl_exact_pos[of "- m" e] assms by simp
    then have "fl (- (of_int m * pow2 e)) = Fin (- (of_int m * pow2 e))" by simp
    then show ?thesis by (cases "fl (of_int m * pow2 e)") (simp_all add: fl_minus)
  qed
qed

lemma fl_of_int:
  assumes "\<bar>z\<bar> < 2 ^ 53"
  shows "fl (of_int z) = Fin (of_int z)"
proof -
  have "\<bar>of_int z\<bar> < (of_int (2 ^ 53) :: real)" using assms by (simp del: of_int_power flip: of_int_abs)
  also have "\<dots> < pow2 1024" by (simp add: pow2_def)
  finally show ?thesis using fl_exact[of z 0] assms by simp
qed

lemma fl_numeral [simp]:
  "numeral k < (2 ^ 53 :: int) \<Longrightarrow> fl (numeral k) = Fin (numeral k)"
  "numeral k < (2 ^ 53 :: int) \<Longrightarrow> fl (- numeral k) = Fin (- numeral k)"
  "fl 1 = Fin 1"
  using fl_of_int[of "numeral k"] fl_of_int[of "- numeral k"] fl_of_int[of 1] by simp_all

text \<open>The integer square root is the floor of the square root.\<close>

lemma isqrt_correct: "0 \<le> n \<Longrightarrow> 0 \<le> isqrt n \<and> isqrt n * isqrt n \<le> n \<and> n < (isqrt n + 1) * (isqrt n + 1)"
proof (induction n rule: isqrt.induct)
  case (1 n)
  show ?case
  proof (cases "n \<le> 0")
    case True
    with 1(2) show ?thesis by (simp add: isqrt.simps)
  next
    case False
    define s where "s = isqrt (n div 4)"
    have "0 \<le> n div 4" using 1(2) by simp
    with 1(1)[OF False] have s: "0 \<le> s" "s * s \<le> n div 4" "n div 4 < (s + 1) * (s + 1)"
      unfolding s_def by simp_all
    from s(2) have lo: "(2 * s) * (2 * s) \<le> n" by (simp add: algebra_simps, linarith?)
    from s(3) have "n div 4 + 1 \<le> (s + 1) * (s + 1)" by simp
    then have hi: "n < (2 * s + 2) * (2 * s + 2)" by (simp add: algebra_simps, linarith?)
    show ?thesis
      using False s(1) lo hi
      by (subst (1 2 3 4 5) isqrt.simps) (auto simp: Let_def s_def[symmetric] algebra_simps)
  qed
qed

lemma isqrt_eqI:
  assumes "0 \<le> k" "k * k \<le> n" "n < (k + 1) * (k + 1)"
  shows "isqrt n = k"
proof -
  have n: "0 \<le> n" using assms(1,2) by (meson mult_nonneg_nonneg order_trans)
  define s where "s = isqrt n"
  from isqrt_correct[OF n] have s: "0 \<le> s" "s * s \<le> n" "n < (s + 1) * (s + 1)"
    unfolding s_def by simp_all
  have "s < k + 1"
  proof (rule ccontr)
    assume "\<not> s < k + 1"
    then have "k + 1 \<le> s" by simp
    then have "(k + 1) * (k + 1) \<le> s * s" using assms(1) by (intro mult_mono) simp_all
    with s(2) assms(3) show False by linarith
  qed
  moreover have "k < s + 1"
  proof (rule ccontr)
    assume "\<not> k < s + 1"
    then have "s + 1 \<le> k" by simp
    then have "(s + 1) * (s + 1) \<le> k * k" using s(1) by (intro mult_mono) simp_all
    with s(3) assms(2) show False by linarith
  qed
  ultimately show ?thesis unfolding s_def by simp
qed

text \<open>Evaluation of \<open>Math.sqrt\<close> by bounds: the result is \<open>n * ulp\<close> when \<open>sqrt a / ulp\<close> lies within one half of \<open>n\<close>.\<close>

lemma Math_sqrt_eqI:
  assumes e: "pow2 (2 * e) \<le> a" "a < pow2 (2 * e + 2)"
    and n: "0 < n" "of_int ((2 * n - 1) * (2 * n - 1)) \<le> 4 * a / (pow2 (e - 52) * pow2 (e - 52))"
      "4 * a / (pow2 (e - 52) * pow2 (e - 52)) < of_int ((2 * n + 1) * (2 * n + 1))"
  shows "Math_sqrt (Fin a) = Fin (of_int n * pow2 (e - 52))"
proof -
  have a: "0 < a" using e(1) pow2_pos[of "2 * e"] by linarith
  have "pow2 (2 * e) < pow2 (ilog2 a + 1)" using e(1) ilog2_upper[OF a] by linarith
  moreover have "pow2 (ilog2 a) < pow2 (2 * e + 2)" using e(2) ilog2_lower[OF a] by linarith
  ultimately have "2 * e \<le> ilog2 a" "ilog2 a < 2 * e + 2" by simp_all
  then have d: "ilog2 a div 2 = e" by linarith
  define t where "t = \<lfloor>4 * a / (pow2 (e - 52) * pow2 (e - 52))\<rfloor>"
  have lo: "(2 * n - 1) * (2 * n - 1) \<le> t" unfolding t_def using n(2) by (simp add: le_floor_iff)
  have hi: "t < (2 * n + 1) * (2 * n + 1)" unfolding t_def using n(3) by (simp add: floor_less_iff)
  have t: "0 \<le> t" using lo n(1) by (meson mult_nonneg_nonneg order_trans zero_le_mult_iff diff_ge_0_iff_ge linorder_le_cases)
  define k where "k = isqrt t"
  from isqrt_correct[OF t] have k: "0 \<le> k" "k * k \<le> t" "t < (k + 1) * (k + 1)"
    unfolding k_def by simp_all
  have "2 * n - 1 < k + 1"
  proof (rule ccontr)
    assume "\<not> 2 * n - 1 < k + 1"
    then have "k + 1 \<le> 2 * n - 1" by simp
    then have "(k + 1) * (k + 1) \<le> (2 * n - 1) * (2 * n - 1)"
      using k(1) by (intro mult_mono) simp_all
    with lo k(3) show False by linarith
  qed
  moreover have "k < 2 * n + 1"
  proof (rule ccontr)
    assume "\<not> k < 2 * n + 1"
    then have "2 * n + 1 \<le> k" by simp
    then have "(2 * n + 1) * (2 * n + 1) \<le> k * k"
      using n(1) by (intro mult_mono) simp_all
    with hi k(2) show False by linarith
  qed
  ultimately have "(k + 1) div 2 = n" by linarith
  then show ?thesis
    using a by (simp add: d Let_def t_def[symmetric] k_def[symmetric])
qed

lemma Math_sqrt_cases: "Math_sqrt x = NaN \<or> Math_sqrt x = PInf \<or> (\<exists>r\<ge>0. Math_sqrt x = Fin r)"
proof (cases x)
  case (Fin a)
  show ?thesis
  proof (cases "0 < a")
    case True
    define t where "t = \<lfloor>4 * a / (pow2 (ilog2 a div 2 - 52) * pow2 (ilog2 a div 2 - 52))\<rfloor>"
    have "0 \<le> 4 * a / (pow2 (ilog2 a div 2 - 52) * pow2 (ilog2 a div 2 - 52))"
      using True by simp
    then have "0 \<le> t" unfolding t_def by simp
    then have "0 \<le> isqrt t" using isqrt_correct by simp
    then have "0 \<le> (isqrt t + 1) div 2" by simp
    then have "0 \<le> of_int ((isqrt t + 1) div 2) * pow2 (ilog2 a div 2 - 52)" by simp
    then show ?thesis using True Fin by (simp add: Let_def t_def[symmetric])
  next
    case False
    then show ?thesis using Fin by auto
  qed
qed simp_all

text \<open>From here on \<open>Math.sqrt\<close> of a positive number is evaluated by \<open>Math_sqrt_eqI\<close> only.\<close>

declare Math_sqrt.simps(4) [simp del]

lemma Math_sqrt_0 [simp]: "Math_sqrt (Fin 0) = Fin 0"
  by (simp add: Math_sqrt.simps(4))

section \<open>Evaluation lemmas\<close>

text \<open>
  Facts that let the simplifier run the program on concrete inputs: comparisons and
  \<open>Math.max\<close> on numbers, array lengths as numbers, decimal digits, and the unfolding
  sets for the string functions, the row preparation and the report.
\<close>

lemma Math_max_pair [simp]: "Math_max [Fin x, Fin y] = Fin (max x y)"
  by (simp add: Math_max_def js_lt_def max_def)

lemma Math_min_pair [simp]: "Math_min [Fin x, Fin y] = Fin (min x y)"
  by (simp add: Math_min_def js_lt_def min_def)

lemma isFinite_simps [simp]:
  "isFinite (Fin x)" "\<not> isFinite NaN" "\<not> isFinite PInf" "\<not> isFinite NInf"
  by (simp_all add: isFinite_def)

lemma coerceThresholds_fixed:
  assumes "0 \<le> p" "p \<le> m" "m \<le> d" "d \<le> 100"
  shows "coerceThresholds (Fin p) (Fin m) (Fin d) = (Fin p, Fin m, Fin d)"
  using assms by (simp add: coerceThresholds_def Let_def max_def min_def)

lemmas string_eval =
  parseFloat_def unsigned_literal_def exponent_part_def is_ws_def is_digit_def digit_val_def
  digits_val_def trim_def remove_all_def String_of_def Number_toString_def signed_inf_def

lemmas rows_eval = coerce_rows_def parseNumber_def isNaN_def

lemma num_simps [simp]: "num 0 = Fin 0" "num (Suc 0) = Fin 1" "num (numeral k) = Fin (numeral k)"
  by (simp_all add: num_def)

lemma num_Suc [simp]: "num (Suc n) = Fin (of_nat n + 1)"
  by (simp add: num_def)

lemma js_cmp_simps [simp]:
  "js_ge (Fin a) (Fin b) = (b \<le> a)" "js_lt (Fin a) (Fin b) = (a < b)"
  "js_ge PInf (Fin b)" "\<not> js_lt PInf y" "\<not> js_ge NInf (Fin b)" "js_lt NInf (Fin b)"
  "js_lt (Fin a) PInf" "\<not> js_lt x NInf" "js_ge (Fin a) NInf" "\<not> js_ge (Fin a) PInf"
  "js_lt NInf PInf" "js_ge PInf PInf" "js_ge NInf NInf" "js_ge PInf NInf" "\<not> js_ge NInf PInf"
  "\<not> js_ge NaN y" "\<not> js_lt NaN y" "\<not> js_ge x NaN" "\<not> js_lt x NaN"
  by (cases x; cases y; auto simp: js_ge_def js_lt_def)+

lemmas report_eval =
  generateReport_def overall_record_def passCount_def meritCount_def distCount_def failCount_def
  passBandCount_def meritBandCount_def distBandCount_def overallPassingRateFixed_def rate_def
  percent_def grades_def mean_def sd_def Math_max_def Math_min_def groupArr_def group_record_def
  forEach_step_def Object_prototype_names_def own_property_def coerceThresholds_def js_sub_def

lemma digits_small [simp]: "0 \<le> n \<Longrightarrow> n < 10 \<Longrightarrow> digits n = [''0123456789'' ! nat n]"
  by (simp add: digits.simps)

lemma digits_rec: "10 \<le> n \<Longrightarrow> digits n = digits (n div 10) @ [''0123456789'' ! nat (n mod 10)]"
  by (subst digits.simps) simp

lemmas digits_numeral [simp] = digits_rec[of "numeral k"] for k

lemma toFixed_special [simp]:
  "toFixed ts f NaN = ''NaN''" "toFixed ts f PInf = ''Infinity''" "toFixed ts f NInf = ''-Infinity''"
  by (simp_all add: toFixed_def Number_toString_def)

section \<open>The standard deviation\<close>

text \<open>Rounding a nonnegative number gives a nonnegative number or \<open>+Infinity\<close>, and the square root of a nonnegative number is a nonnegative number.\<close>

lemma fl_nonneg_cases:
  assumes "0 \<le> q"
  obtains "fl q = PInf" | r where "0 \<le> r" "fl q = Fin r"
  using fl_nonneg[OF assms] by blast

lemma fl_cases3: "fl q = PInf \<or> fl q = NInf \<or> (\<exists>r. fl q = Fin r)"
  by (cases "fl q") simp_all

lemma Math_sqrt_nonneg_arg:
  assumes "0 \<le> a"
  shows "\<exists>r\<ge>0. Math_sqrt (Fin a) = Fin r"
  using Math_sqrt_cases[of "Fin a"] assms
  by (auto simp: Math_sqrt.simps(4) Let_def split: if_splits)

text \<open>The sum of finite numbers is never \<open>NaN\<close>.\<close>

lemma foldl_js_add_not_NaN:
  assumes "list_all isFinite gs" "acc \<noteq> NaN"
  shows "foldl js_add acc gs \<noteq> NaN"
  using assms
proof (induction gs arbitrary: acc)
  case Nil
  then show ?case by simp
next
  case (Cons g gs)
  from Cons.prems(1) obtain b where g: "g = Fin b" by (cases g) simp_all
  have "js_add acc g \<noteq> NaN" using Cons.prems(2) unfolding g by (cases acc) simp_all
  with Cons.IH Cons.prems(1) show ?case by simp
qed

lemma mean_not_NaN:
  assumes "gs \<noteq> []" "list_all isFinite gs"
  shows "mean gs \<noteq> NaN"
proof -
  have s: "foldl js_add (Fin 0) gs \<noteq> NaN" using assms(2) by (intro foldl_js_add_not_NaN) simp_all
  have n: "(of_nat (length gs) :: real) \<noteq> 0" using assms(1) by simp
  show ?thesis
    unfolding mean_def num_def using s n
    by (cases "foldl js_add (Fin 0) gs") (simp_all add: signed_inf_def)
qed

text \<open>A squared deviation from a mean that is not \<open>NaN\<close> is \<open>+Infinity\<close> or nonnegative.\<close>

lemma squared_deviation_nonneg:
  assumes "mu \<noteq> NaN"
  shows "Math_pow2 (js_sub (Fin b) mu) = PInf \<or> (\<exists>r\<ge>0. Math_pow2 (js_sub (Fin b) mu) = Fin r)"
proof (cases mu)
  case (Fin m)
  show ?thesis
  proof (cases "fl (b - m)")
    case (Fin x)
    have "0 \<le> x * x" by simp
    then show ?thesis
      using fl_nonneg[of "x * x"] Fin \<open>mu = Fin m\<close> by (simp add: js_sub_def)
  qed (simp_all add: js_sub_def \<open>mu = Fin m\<close>)
qed (use assms in \<open>simp_all add: js_sub_def\<close>)

lemma js_add_nonneg:
  assumes "x = PInf \<or> (\<exists>r\<ge>0. x = Fin r)" "y = PInf \<or> (\<exists>r\<ge>0. y = Fin r)"
  shows "js_add x y = PInf \<or> (\<exists>r\<ge>0. js_add x y = Fin r)"
  using assms fl_nonneg by (elim disjE exE conjE) (simp_all add: fl_nonneg)

lemma sum_squares_nonneg:
  assumes "list_all isFinite gs" "mu \<noteq> NaN" "acc = PInf \<or> (\<exists>r\<ge>0. acc = Fin r)"
  shows "foldl (\<lambda>a b. js_add a (Math_pow2 (js_sub b mu))) acc gs = PInf
         \<or> (\<exists>r\<ge>0. foldl (\<lambda>a b. js_add a (Math_pow2 (js_sub b mu))) acc gs = Fin r)"
  using assms
proof (induction gs arbitrary: acc)
  case Nil
  then show ?case by simp
next
  case (Cons g gs)
  from Cons.prems(1) obtain b where g: "g = Fin b" by (cases g) simp_all
  have "js_add acc (Math_pow2 (js_sub g mu)) = PInf
        \<or> (\<exists>r\<ge>0. js_add acc (Math_pow2 (js_sub g mu)) = Fin r)"
    unfolding g using Cons.prems(3) squared_deviation_nonneg[OF Cons.prems(2)]
    by (rule js_add_nonneg)
  with Cons.IH[OF _ Cons.prems(2)] Cons.prems(1) show ?case by simp
qed

lemma sd_nonneg:
  assumes "gs \<noteq> []" "list_all isFinite gs"
  shows "sd gs = PInf \<or> (\<exists>r\<ge>0. sd gs = Fin r)"
proof -
  define s where "s = foldl (\<lambda>a b. js_add a (Math_pow2 (js_sub b (mean gs)))) (Fin 0) gs"
  have s: "s = PInf \<or> (\<exists>r\<ge>0. s = Fin r)"
    unfolding s_def using assms(2) mean_not_NaN[OF assms] by (intro sum_squares_nonneg) simp_all
  have n: "0 < (of_nat (length gs) :: real)" using assms(1) by simp
  have "js_div s (num (length gs)) = PInf \<or> (\<exists>r\<ge>0. js_div s (num (length gs)) = Fin r)"
  proof (use s in \<open>elim disjE exE conjE\<close>)
    assume "s = PInf"
    then show ?thesis using n by (simp add: num_def signed_inf_def)
  next
    fix r assume r: "0 \<le> r" "s = Fin r"
    then have "0 \<le> r / of_nat (length gs)" using n by simp
    from fl_nonneg[OF this] show ?thesis using r n by (simp add: num_def)
  qed
  then show ?thesis
    unfolding sd_def s_def[symmetric]
    using Math_sqrt_nonneg_arg by (elim disjE exE conjE) simp_all
qed

text \<open>A single grade, and equal grades whose mean is exact, have the standard deviation 0. The sum of \<open>k\<close> equal integer grades is exact as long as it stays below \<open>2^53\<close>.\<close>

lemma sd_single:
  assumes "fl g = Fin g"
  shows "sd [Fin g] = Fin 0"
  using assms by (simp add: sd_def mean_def js_sub_def)

lemma sum_squares_equal:
  "foldl (\<lambda>a b. js_add a (Math_pow2 (js_sub b (Fin g)))) (Fin 0) (replicate k (Fin g)) = Fin 0"
  by (induction k) (simp_all add: js_sub_def)

lemma sd_equal_exact_mean:
  assumes "0 < n" "mean (replicate n (Fin g)) = Fin g"
  shows "sd (replicate n (Fin g)) = Fin 0"
  using assms by (simp add: sd_def sum_squares_equal num_def)

lemma sum_equal_integers:
  assumes "\<bar>z\<bar> * int k < 2 ^ 53"
  shows "foldl js_add (Fin 0) (replicate k (Fin (of_int z))) = Fin (of_int (int k * z))"
  using assms
proof (induction k)
  case 0
  then show ?case by simp
next
  case (Suc k)
  have le: "\<bar>z\<bar> * int k \<le> \<bar>z\<bar> * int (Suc k)" by (intro mult_left_mono) simp_all
  with Suc.prems have "\<bar>z\<bar> * int k < 2 ^ 53" by linarith
  with Suc.IH have s: "foldl js_add (Fin 0) (replicate k (Fin (of_int z))) = Fin (of_int (int k * z))"
    by simp
  have "\<bar>int (Suc k) * z\<bar> < 2 ^ 53" using Suc.prems by (simp add: abs_mult mult.commute)
  then have f: "fl (of_int (int (Suc k) * z)) = Fin (of_int (int (Suc k) * z))" by (rule fl_of_int)
  have e: "(of_int (int k * z) + of_int z :: real) = of_int (int (Suc k) * z)"
    by (simp add: algebra_simps)
  have "foldl js_add (Fin 0) (replicate (Suc k) (Fin (of_int z)))
      = foldl js_add (Fin 0) (replicate k (Fin (of_int z)) @ [Fin (of_int z)])"
    by (simp only: replicate_append_same replicate_Suc)
  also have "\<dots> = js_add (foldl js_add (Fin 0) (replicate k (Fin (of_int z)))) (Fin (of_int z))"
    by simp
  also have "\<dots> = fl (of_int (int k * z) + of_int z)" by (simp only: s js_add.simps)
  also have "\<dots> = Fin (of_int (int (Suc k) * z))" by (simp only: e f)
  finally show ?case .
qed

lemma mean_equal_integers:
  assumes "0 < n" "\<bar>z\<bar> * int n < 2 ^ 53"
  shows "mean (replicate n (Fin (of_int z))) = Fin (of_int z)"
proof -
  have "\<bar>z\<bar> * 1 \<le> \<bar>z\<bar> * int n" using assms(1) by (intro mult_left_mono) simp_all
  with assms(2) have "\<bar>z\<bar> < 2 ^ 53" by simp
  then have "fl (of_int z) = Fin (of_int z)" by (rule fl_of_int)
  moreover have "(of_int (int n * z) / of_nat n :: real) = of_int z" using assms(1) by simp
  ultimately show ?thesis
    using assms(1) by (simp add: mean_def sum_equal_integers[OF assms(2)] num_def del: of_int_mult)
qed

section \<open>Rounding of the rates\<close>

text \<open>The percentage \<open>(c / n) * 100\<close> takes two roundings; for \<open>c \<le> n < 2^32\<close> both are in the normal range, so the result is within \<open>300 * 2^-53\<close> of the exact percentage.\<close>

lemma percent_zero:
  assumes "0 < n"
  shows "percent 0 n = Fin 0"
  using assms by (simp add: percent_def num_def)

lemma pow2_m53_small: "pow2 (- 53) \<le> 1 / 2"
proof -
  have "pow2 (- 53) \<le> pow2 (- 1)" by simp
  then show ?thesis by (simp only: pow2_m1)
qed

lemma percent_error:
  assumes n: "0 < n" "n < 2 ^ 32" and c: "c \<le> n"
  obtains v where "percent c n = Fin v" "0 \<le> v"
    "\<bar>v - 100 * of_nat c / of_nat n\<bar> \<le> 300 * pow2 (- 53)"
proof (cases "c = 0")
  case True
  have "percent c n = Fin 0" unfolding True using n(1) by (rule percent_zero)
  then show ?thesis using True by (intro that[of 0]) simp_all
next
  case False
  define u where "u = pow2 (- 53)"
  have u: "0 < u" "u \<le> 1 / 2" unfolding u_def using pow2_m53_small by simp_all
  define q1 :: real where "q1 = of_nat c / of_nat n"
  have nr: "0 < (of_nat n :: real)" using n(1) by simp
  have "(of_nat n :: real) < of_nat (2 ^ 32)" using n(2) by (simp only: of_nat_less_iff)
  then have n32: "(of_nat n :: real) < 2 ^ 32" by simp
  have c1: "1 \<le> (of_nat c :: real)" using False by (simp add: Suc_le_eq)
  have q1_le: "q1 \<le> 1" unfolding q1_def using c nr by simp
  have "1 / 2 ^ 32 \<le> 1 / (of_nat n :: real)" using n32 nr by (simp add: field_simps)
  also have "\<dots> \<le> q1" unfolding q1_def using c1 nr by (simp add: divide_right_mono)
  finally have q1_ge: "1 / 2 ^ 32 \<le> q1" .
  have "pow2 (- 1022) \<le> pow2 (- 32)" by simp
  also have "pow2 (- 32) = 1 / 2 ^ 32" by (simp add: pow2_def)
  finally have lo1: "pow2 (- 1022) \<le> q1" using q1_ge by linarith
  have "(1::real) = pow2 0" by simp
  also have "\<dots> < pow2 1023" by (simp only: pow2_less_iff)
  finally have hi1: "q1 < pow2 1023" using q1_le by linarith
  from fl_rel_err[OF lo1 hi1] obtain r1 where
    r1: "fl q1 = Fin r1" "\<bar>r1 - q1\<bar> \<le> q1 * u" unfolding u_def by blast
  have q1_pos: "0 < q1" using q1_ge by (smt (verit) divide_pos_pos zero_less_power)
  have "q1 * u \<le> q1 * (1 / 2)" using u(2) q1_pos by (intro mult_left_mono) simp_all
  with r1(2) have r1_bounds: "q1 / 2 \<le> r1" "r1 \<le> 2 * q1" by (simp_all add: abs_le_iff)
  define q2 where "q2 = r1 * 100"
  have q2_ge: "50 / 2 ^ 32 \<le> q2" unfolding q2_def using r1_bounds(1) q1_ge by simp
  have q2_le: "q2 \<le> 200" unfolding q2_def using r1_bounds(2) q1_le by simp
  have "pow2 (- 32) \<le> 50 / 2 ^ 32" by (simp add: pow2_def)
  with q2_ge \<open>pow2 (- 1022) \<le> pow2 (- 32)\<close> have lo2: "pow2 (- 1022) \<le> q2" by linarith
  have "(200::real) \<le> pow2 8" by (simp add: pow2_def)
  also have "\<dots> < pow2 1023" by (simp only: pow2_less_iff)
  finally have hi2: "q2 < pow2 1023" using q2_le by linarith
  from fl_rel_err[OF lo2 hi2] obtain v where
    v: "fl q2 = Fin v" "\<bar>v - q2\<bar> \<le> q2 * u" unfolding u_def by blast
  have q2_pos: "0 < q2" using q2_ge by (smt (verit) divide_pos_pos zero_less_power)
  have p: "percent c n = Fin v"
    using nr by (simp add: percent_def num_def q1_def[symmetric] r1(1) q2_def[symmetric] v(1))
  have "q2 * u \<le> q2 * 1" using u q2_pos by (intro mult_left_mono) simp_all
  with v(2) have v0: "0 \<le> v" by (simp add: abs_le_iff)
  have "q2 * u \<le> 200 * u" using q2_le u(1) by (intro mult_right_mono) simp_all
  with v(2) have e2: "\<bar>v - q2\<bar> \<le> 200 * u" by linarith
  have "q1 * u \<le> 1 * u" using q1_le u(1) by (intro mult_right_mono) simp_all
  with r1(2) have "\<bar>r1 - q1\<bar> \<le> u" by simp
  then have "\<bar>q2 - 100 * q1\<bar> \<le> 100 * u" unfolding q2_def by (simp add: abs_le_iff)
  with e2 have "\<bar>v - 100 * q1\<bar> \<le> 300 * u" by (simp add: abs_le_iff)
  then have "\<bar>v - 100 * of_nat c / of_nat n\<bar> \<le> 300 * pow2 (- 53)"
    unfolding q1_def u_def by simp
  with p v0 show ?thesis by (rule that)
qed


text \<open>\<open>toFixed(1)\<close> of the computed percentage: \<open>1000 c / n + 1/2\<close> is a multiple of \<open>1 / (2 n)\<close>, so unless it is an integer (a tie) it is further from every integer than the rounding error.\<close>

lemma rate_tenths:
  fixes c n :: nat and v :: real
  defines "x \<equiv> 100 * of_nat c / of_nat n * 10"
  assumes n: "0 < n" "n < 2 ^ 32" and c: "c \<le> n" and p: "percent c n = Fin v"
  shows "toFixed_int 1 v = spec_round_half_away x \<or> toFixed_int 1 v = spec_round_half_away x - 1"
    and "frac x \<noteq> 1 / 2 \<Longrightarrow> toFixed_int 1 v = spec_round_half_away x"
proof -
  define k where "k = spec_round_half_away x"
  define eps where "eps = 3000 * pow2 (- 53)"
  from percent_error[OF n c] p have "\<bar>v - 100 * of_nat c / of_nat n\<bar> \<le> 300 * pow2 (- 53)"
    by (metis jsnum.inject)
  then have e: "\<bar>v * 10 - x\<bar> \<le> eps" unfolding x_def eps_def by (simp add: abs_le_iff)
  have nr: "0 < (of_nat n :: real)" using n(1) by simp
  have "(of_nat n :: real) < of_nat (2 ^ 32)" using n(2) by (simp only: of_nat_less_iff)
  then have n32: "(of_nat n :: real) < 2 ^ 32" by simp
  have "eps < 1 / 2 ^ 33" unfolding eps_def by (simp add: pow2_def)
  also have "\<dots> \<le> 1 / (2 * of_nat n)" using n32 nr by (simp add: field_simps)
  finally have eps: "eps < 1 / (2 * of_nat n)" .
  have "1 / (2 * of_nat n) \<le> 1 / (2 * (1::real))" using n(1) by (intro divide_left_mono) simp_all
  with eps have eps1: "eps < 1 / 2" by simp
  have x0: "0 \<le> x" unfolding x_def by simp
  then have k: "k = \<lfloor>x + 1 / 2\<rfloor>" unfolding k_def spec_round_half_away_def by simp
  define y where "y = x + 1 / 2 - of_int k"
  have y: "0 \<le> y" "y < 1" unfolding y_def k by linarith+
  define A where "A = 2000 * int c + int n - 2 * int n * k"
  have "2 * of_nat n * x = 2000 * of_nat c" unfolding x_def using nr by simp
  then have A: "of_int A = 2 * of_nat n * y" unfolding A_def y_def by (simp add: algebra_simps)
  have t: "toFixed_int 1 v = \<lfloor>v * 10 + 1 / 2\<rfloor>" by (simp add: toFixed_int_def)
  have A0: "0 \<le> A"
  proof -
    have "0 \<le> 2 * of_nat n * y" using y(1) nr by simp
    then have "(0::real) \<le> of_int A" by (simp only: A)
    then show ?thesis by simp
  qed
  show tie: "toFixed_int 1 v = spec_round_half_away x \<or> toFixed_int 1 v = spec_round_half_away x - 1"
  proof (cases "A = 0")
    case True
    then have "y = 0" using A nr by simp
    then have "x + 1 / 2 = of_int k" unfolding y_def by simp
    with e eps1 have "of_int (k - 1) \<le> v * 10 + 1 / 2" "v * 10 + 1 / 2 < of_int (k + 1)"
      by (simp_all add: abs_le_iff)
    then have "k - 1 \<le> \<lfloor>v * 10 + 1 / 2\<rfloor>" "\<lfloor>v * 10 + 1 / 2\<rfloor> < k + 1"
      by (simp_all only: le_floor_iff floor_less_iff)
    then show ?thesis unfolding t k_def[symmetric] by linarith
  next
    case False
    with A0 have "1 \<le> A" by simp
    then have "(1::real) \<le> of_int A" by simp
    then have "1 \<le> 2 * of_nat n * y" by (simp only: A)
    then have lo: "1 / (2 * of_nat n) \<le> y" using nr by (simp add: field_simps)
    have "2 * of_nat n * y < 2 * of_nat n * 1" using y(2) nr by (intro mult_strict_left_mono) simp_all
    then have "of_int A < (of_int (2 * int n) :: real)" by (simp add: A)
    then have "A < 2 * int n" by (simp only: of_int_less_iff)
    then have "A \<le> 2 * int n - 1" by simp
    then have "(of_int A :: real) \<le> of_int (2 * int n - 1)" by (simp only: of_int_le_iff)
    then have "2 * of_nat n * y \<le> 2 * of_nat n - 1" by (simp add: A)
    then have hi: "y \<le> 1 - 1 / (2 * of_nat n)" using nr by (simp add: field_simps)
    from lo hi eps e have "of_int k \<le> v * 10 + 1 / 2" "v * 10 + 1 / 2 < of_int (k + 1)"
      unfolding y_def by (simp_all add: abs_le_iff)
    then have "\<lfloor>v * 10 + 1 / 2\<rfloor> = k" by (simp add: floor_eq_iff)
    then show ?thesis unfolding t k_def[symmetric] by simp
  qed
  show "toFixed_int 1 v = spec_round_half_away x" if nt: "frac x \<noteq> 1 / 2"
  proof (cases "A = 0")
    case True
    then have "y = 0" using A nr by simp
    then have xk: "x = of_int k - 1 / 2" unfolding y_def by simp
    have "\<lfloor>of_int k - 1 / 2 :: real\<rfloor> = k - 1" by linarith
    then have "frac x = 1 / 2" unfolding xk frac_def by simp
    with nt show ?thesis by simp
  next
    case False
    with A0 have "1 \<le> A" by simp
    then have "(1::real) \<le> of_int A" by simp
    then have "1 \<le> 2 * of_nat n * y" by (simp only: A)
    then have lo: "1 / (2 * of_nat n) \<le> y" using nr by (simp add: field_simps)
    have "2 * of_nat n * y < 2 * of_nat n * 1" using y(2) nr by (intro mult_strict_left_mono) simp_all
    then have "of_int A < (of_int (2 * int n) :: real)" by (simp add: A)
    then have "A < 2 * int n" by (simp only: of_int_less_iff)
    then have "A \<le> 2 * int n - 1" by simp
    then have "(of_int A :: real) \<le> of_int (2 * int n - 1)" by (simp only: of_int_le_iff)
    then have "2 * of_nat n * y \<le> 2 * of_nat n - 1" by (simp add: A)
    then have hi: "y \<le> 1 - 1 / (2 * of_nat n)" using nr by (simp add: field_simps)
    from lo hi eps e have "of_int k \<le> v * 10 + 1 / 2" "v * 10 + 1 / 2 < of_int (k + 1)"
      unfolding y_def by (simp_all add: abs_le_iff)
    then have "\<lfloor>v * 10 + 1 / 2\<rfloor> = k" by (simp add: floor_eq_iff)
    then show ?thesis unfolding t k_def[symmetric] by simp
  qed
qed


text \<open>The string of \<open>toFixed\<close> is determined by the integer it rounds to.\<close>

lemma toFixed_by_int:
  assumes "0 \<le> a" "a < 10 ^ 21" "0 \<le> b" "b < 10 ^ 21" "toFixed_int f a = toFixed_int f b"
  shows "toFixed ts f (Fin a) = toFixed ts f (Fin b)"
  using assms by (simp add: toFixed_def Let_def)

lemma toFixed_int_tenths: "toFixed_int 1 (of_int k / 10) = k"
  by (simp add: toFixed_int_def)

lemma rate_vs_spec_rate:
  assumes n: "0 < n" "n < 2 ^ 32" and c: "c \<le> n"
  shows "(frac (100 * real c / real n * 10) \<noteq> 1 / 2 \<longrightarrow> rate ts c n = spec_rate ts c n)
       \<and> (rate ts c n = spec_rate ts c n
          \<or> rate ts c n
              = toFixed ts 1
                  (Fin (of_int (spec_round_half_away (100 * real c / real n * 10) - 1) / 10)))"
proof -
  define x :: real where "x = 100 * of_nat c / of_nat n * 10"
  define k where "k = spec_round_half_away x"
  from percent_error[OF n c] obtain v where
    v: "percent c n = Fin v" "0 \<le> v" "\<bar>v - 100 * of_nat c / of_nat n\<bar> \<le> 300 * pow2 (- 53)"
    by blast
  have nr: "0 < (of_nat n :: real)" using n(1) by simp
  have "(of_nat c :: real) \<le> of_nat n" using c by (simp only: of_nat_le_iff)
  then have q: "of_nat c / of_nat n \<le> (1::real)" using nr by simp
  have "300 * pow2 (- 53) \<le> (1::real)" by (simp add: pow2_def)
  with v(3) q have v_le: "v \<le> 101" by (simp add: abs_le_iff)
  then have v21: "v < 10 ^ 21" by simp
  have x0: "0 \<le> x" unfolding x_def by simp
  have x_le: "x \<le> 1000" unfolding x_def using q by simp
  have k0: "0 \<le> k" unfolding k_def spec_round_half_away_def using x0 by simp
  have "k \<le> 1000" unfolding k_def spec_round_half_away_def using x0 x_le
    by (simp add: floor_le_iff)
  then have k_le: "(of_int k :: real) \<le> 1000" by (simp only: of_int_le_iff of_int_numeral)
  have t0: "0 \<le> toFixed_int 1 v" unfolding toFixed_int_def using v(2) by simp
  have eqI: "rate ts c n = toFixed ts 1 (Fin (of_int j / 10))" if "toFixed_int 1 v = j" "j \<le> k" for j
  proof -
    have j0: "0 \<le> j" using t0 that(1) by simp
    have "(of_int j :: real) \<le> of_int k" using that(2) by (simp only: of_int_le_iff)
    with k_le have "(of_int j :: real) / 10 < 10 ^ 21" by simp
    moreover have "0 \<le> (of_int j :: real) / 10" using j0 by simp
    moreover have "toFixed_int 1 v = toFixed_int 1 (of_int j / 10)"
      using that(1) by (simp only: toFixed_int_tenths)
    ultimately show ?thesis
      unfolding rate_def v(1) using v(2) v21 by (intro toFixed_by_int) simp_all
  qed
  from rate_tenths[OF n c v(1)] have
    t: "toFixed_int 1 v = k \<or> toFixed_int 1 v = k - 1"
    and nt: "frac x \<noteq> 1 / 2 \<Longrightarrow> toFixed_int 1 v = k"
    unfolding x_def k_def by simp_all
  have "frac x \<noteq> 1 / 2 \<longrightarrow> rate ts c n = spec_rate ts c n"
    using nt eqI[of k] unfolding spec_rate_def k_def x_def by simp
  moreover have "rate ts c n = spec_rate ts c n
      \<or> rate ts c n = toFixed ts 1 (Fin (of_int (k - 1) / 10))"
    using t eqI[of k] eqI[of "k - 1"] unfolding spec_rate_def k_def x_def by auto
  ultimately show ?thesis unfolding k_def x_def by simp
qed

section \<open>Properties of the numeric coercion\<close>

text \<open>
  What \<open>parseNumber\<close> and the row preparation guarantee: a cell that is not a number
  coerces to a finite number or to \<open>NaN\<close>, no coerced row has the grade \<open>NaN\<close>, and all
  coerced grades are finite when the numeric cells of the grade column are.
\<close>

lemma parseNumber_examples:
  "parseNumber ts (StrV ''85%'') = Fin 85"
  "parseNumber ts (StrV ''N/A'') = NaN"
  "parseNumber ts (StrV '' 1,234.5 '') = Fin (2469 / 2)"
  "parseNumber ts Null = NaN"
  using fl_exact[of 2469 "- 1"]
  by (simp_all add: parseNumber_def string_eval pow2_def)

lemma parseNumber_finite_or_NaN:
  assumes "\<And>n. x \<noteq> NumV n"
  shows "parseNumber ts x = NaN \<or> isFinite (parseNumber ts x)"
proof (cases x)
  case (NumV n)
  with assms show ?thesis by blast
qed (simp_all add: parseNumber_def Let_def)

lemma coerce_rows_not_NaN:
  assumes "r \<in> set (coerce_rows ts gc grc dt)"
  shows "grade r \<noteq> NaN"
  using assms by (auto simp: coerce_rows_def isNaN_def)

lemma coerce_rows_finite:
  assumes "\<And>r n. r \<in> set dt \<Longrightarrow> r gc = NumV n \<Longrightarrow> n = NaN \<or> isFinite n"
    and "r' \<in> set (coerce_rows ts gc grc dt)"
  shows "isFinite (grade r')"
proof -
  from assms(2) obtain r where r: "r \<in> set dt" "grade r' = parseNumber ts (r gc)"
    "parseNumber ts (r gc) \<noteq> NaN"
    by (auto simp: coerce_rows_def isNaN_def)
  show ?thesis
  proof (cases "\<exists>n. r gc = NumV n")
    case True
    then obtain n where n: "r gc = NumV n" by blast
    then have "parseNumber ts (r gc) = n" by (simp add: parseNumber_def)
    with assms(1)[OF r(1) n] r(2,3) show ?thesis by auto
  next
    case False
    then have "parseNumber ts (r gc) = NaN \<or> isFinite (parseNumber ts (r gc))"
      by (intro parseNumber_finite_or_NaN) blast
    with r(2,3) show ?thesis by auto
  qed
qed

lemma coerce_rows_examples:
  "coerce_rows ts ''Grade'' ''Group''
     [\<lambda>k. if k = ''Grade'' then StrV ''85%'' else StrV ''A'',
      \<lambda>k. if k = ''Grade'' then StrV ''N/A'' else StrV ''A'',
      \<lambda>k. if k = ''Grade'' then NumV (Fin 70) else Null]
   = [\<lparr> grade = Fin 85, group = ''A'' \<rparr>, \<lparr> grade = Fin 70, group = ''(missing)'' \<rparr>]"
  by (simp add: coerce_rows_def isNaN_def parseNumber_examples String_of_def)
     (simp add: parseNumber_def)

section \<open>Properties of the grouping\<close>

text \<open>One step of the grouping loop, for a label that is not inherited from \<open>Object.prototype\<close>: the label becomes a key, the keys stay distinct and one more grade is stored.\<close>

lemma map_of_Some_fst:
  assumes "map_of groups k = Some v"
  shows "k \<in> fst ` set groups"
  using map_of_SomeD[OF assms] by force

lemma sum_lengths_update:
  assumes "map_of groups k = Some arr"
  shows "sum_list (map (length \<circ> snd) (AList.update k (arr @ [x]) groups))
         = Suc (sum_list (map (length \<circ> snd) groups))"
  using assms by (induction groups) (auto split: if_splits)

lemma forEach_step_Some:
  assumes "group r \<notin> set Object_prototype_names"
  obtains groups' where "forEach_step groups r = Some groups'"
    "set (map fst groups') = insert (group r) (set (map fst groups))"
    "distinct (map fst groups) \<Longrightarrow> distinct (map fst groups')"
    "sum_list (map (length \<circ> snd) groups') = Suc (sum_list (map (length \<circ> snd) groups))"
proof (cases "map_of groups (group r)")
  case None
  then have k: "group r \<notin> set (map fst groups)" by (simp add: map_of_eq_None_iff)
  show ?thesis
  proof (rule that[of "groups @ [(group r, [grade r])]"])
    show "forEach_step groups r = Some (groups @ [(group r, [grade r])])"
      using None assms by (simp add: forEach_step_def)
  qed (use k in simp_all)
next
  case (Some arr)
  then have k: "group r \<in> fst ` set groups" by (rule map_of_Some_fst)
  show ?thesis
  proof (rule that[of "AList.update (group r) (arr @ [grade r]) groups"])
    show "forEach_step groups r = Some (AList.update (group r) (arr @ [grade r]) groups)"
      using Some by (simp add: forEach_step_def)
    show "set (map fst (AList.update (group r) (arr @ [grade r]) groups))
          = insert (group r) (set (map fst groups))"
      using k by (auto simp: dom_update)
    show "distinct (map fst (AList.update (group r) (arr @ [grade r]) groups))"
      if "distinct (map fst groups)" using that by (rule distinct_update)
    show "sum_list (map (length \<circ> snd) (AList.update (group r) (arr @ [grade r]) groups))
          = Suc (sum_list (map (length \<circ> snd) groups))"
      using Some by (rule sum_lengths_update)
  qed
qed

lemma forEach_step_None:
  "forEach_step groups r = None
   \<longleftrightarrow> group r \<in> set Object_prototype_names \<and> group r \<notin> set (map fst groups)"
  by (auto simp: forEach_step_def map_of_eq_None_iff split: option.splits
        dest: map_of_Some_fst)

lemma forEach_rows_Some:
  assumes "set (map group rows) \<inter> set Object_prototype_names = {}"
  obtains groups' where "forEach_rows groups rows = Some groups'"
    "set (map fst groups') = set (map group rows) \<union> set (map fst groups)"
    "distinct (map fst groups) \<Longrightarrow> distinct (map fst groups')"
    "sum_list (map (length \<circ> snd) groups')
     = length rows + sum_list (map (length \<circ> snd) groups)"
  using assms
proof (induction rows arbitrary: groups thesis)
  case Nil
  show ?case by (rule Nil(1)[of groups]) simp_all
next
  case (Cons r rows)
  from Cons.prems(2) have r: "group r \<notin> set Object_prototype_names"
    and rs: "set (map group rows) \<inter> set Object_prototype_names = {}" by auto
  from forEach_step_Some[OF r, of groups] obtain g1 where g1: "forEach_step groups r = Some g1"
    "set (map fst g1) = insert (group r) (set (map fst groups))"
    "distinct (map fst groups) \<Longrightarrow> distinct (map fst g1)"
    "sum_list (map (length \<circ> snd) g1) = Suc (sum_list (map (length \<circ> snd) groups))"
    by blast
  from Cons.IH[OF _ rs, of g1] obtain g2 where g2: "forEach_rows g1 rows = Some g2"
    "set (map fst g2) = set (map group rows) \<union> set (map fst g1)"
    "distinct (map fst g1) \<Longrightarrow> distinct (map fst g2)"
    "sum_list (map (length \<circ> snd) g2) = length rows + sum_list (map (length \<circ> snd) g1)"
    by blast
  show ?case
  proof (rule Cons.prems(1)[of g2])
    show "forEach_rows groups (r # rows) = Some g2" using g1(1) g2(1) by simp
    show "set (map fst g2) = set (map group (r # rows)) \<union> set (map fst groups)"
      using g1(2) g2(2) by auto
    show "distinct (map fst g2)" if "distinct (map fst groups)" using that g1(3) g2(3) by blast
    show "sum_list (map (length \<circ> snd) g2)
          = length (r # rows) + sum_list (map (length \<circ> snd) groups)"
      using g1(4) g2(4) by simp
  qed
qed

lemma forEach_rows_None:
  assumes "forEach_rows groups rows = None"
  shows "set (map group rows) \<inter> set Object_prototype_names \<noteq> {}"
proof (rule ccontr)
  assume "\<not> set (map group rows) \<inter> set Object_prototype_names \<noteq> {}"
  then have "set (map group rows) \<inter> set Object_prototype_names = {}" by simp
  from forEach_rows_Some[OF this, of groups] assms show False by auto
qed

text \<open>\<open>Object.keys\<close> is a reordering of the own keys, and the group sizes add up to the number of stored grades.\<close>

lemma Object_keys_set [simp]: "set (Object_keys groups) = set (map fst groups)"
  by (auto simp: Object_keys_def)

lemma Object_keys_distinct:
  assumes "distinct (map fst groups)"
  shows "distinct (Object_keys groups)"
  using assms by (auto simp: Object_keys_def distinct_map_filter)

lemma own_property_sum:
  assumes "distinct (map fst groups)"
  shows "(\<Sum>k\<in>set (map fst groups). length (own_property groups k))
         = sum_list (map (length \<circ> snd) groups)"
  using assms
proof (induction groups)
  case Nil
  then show ?case by simp
next
  case (Cons kv groups)
  obtain k v where kv: "kv = (k, v)" by (cases kv)
  from Cons.prems have k: "k \<notin> set (map fst groups)" and d: "distinct (map fst groups)"
    by (simp_all add: kv)
  have "(\<Sum>j\<in>set (map fst groups). length (own_property (kv # groups) j))
        = (\<Sum>j\<in>set (map fst groups). length (own_property groups j))"
    using k by (intro sum.cong) (auto simp: own_property_def kv)
  with Cons.IH[OF d] k show ?case
    by (simp add: kv own_property_def)
qed

lemma groupArr_labels: "map Group (groupArr ts p m d groups) = sort (Object_keys groups)"
  by (simp add: groupArr_def group_record_def Let_def comp_def)

lemma groupArr_sizes:
  "map N (groupArr ts p m d groups)
   = map (\<lambda>k. length (own_property groups k)) (sort (Object_keys groups))"
  by (simp add: groupArr_def group_record_def Let_def comp_def)

lemma groupArr_total:
  assumes "distinct (map fst groups)"
  shows "sum_list (map N (groupArr ts p m d groups)) = sum_list (map (length \<circ> snd) groups)"
proof -
  have dk: "distinct (sort (Object_keys groups))"
    using Object_keys_distinct[OF assms] by simp
  have "sum_list (map N (groupArr ts p m d groups))
        = (\<Sum>k\<in>set (sort (Object_keys groups)). length (own_property groups k))"
    unfolding groupArr_sizes using dk by (simp add: sum_list_distinct_conv_sum_set)
  also have "\<dots> = (\<Sum>k\<in>set (map fst groups). length (own_property groups k))" by simp
  also have "\<dots> = sum_list (map (length \<circ> snd) groups)" using assms by (rule own_property_sum)
  finally show ?thesis .
qed

text \<open>
  When no group label names a property of \<open>Object.prototype\<close>, the report is generated
  whenever the checks pass, with one group summary per distinct label, in ascending order,
  and group sizes that add up to the overall size.
\<close>

lemma generateReport_groups:
  assumes ok: "data st \<noteq> []" "gradeCol st \<noteq> []" "groupCol st \<noteq> []" "trim (title st) \<noteq> [] \<or> ok"
    and rows: "coerce_rows ts (gradeCol st) (groupCol st) (data st) \<noteq> []"
    and labels: "set (map group (coerce_rows ts (gradeCol st) (groupCol st) (data st)))
                 \<inter> set Object_prototype_names = {}"
  shows "fst (generateReport ts ok st) = Generated"
    and "sorted (map Group (groupSummary (snd (generateReport ts ok st))))"
    and "distinct (map Group (groupSummary (snd (generateReport ts ok st))))"
    and "set (map Group (groupSummary (snd (generateReport ts ok st))))
         = set (map group (coerce_rows ts (gradeCol st) (groupCol st) (data st)))"
    and "sum_list (map N (groupSummary (snd (generateReport ts ok st))))
         = length (coerce_rows ts (gradeCol st) (groupCol st) (data st))"
    and "map N (overallSummary (snd (generateReport ts ok st)))
         = [length (coerce_rows ts (gradeCol st) (groupCol st) (data st))]"
proof -
  define rs where "rs = coerce_rows ts (gradeCol st) (groupCol st) (data st)"
  from forEach_rows_Some[OF labels, of "[]"] obtain groups where
    g: "forEach_rows [] rs = Some groups" "set (map fst groups) = set (map group rs)"
       "distinct (map fst groups)" "sum_list (map (length \<circ> snd) groups) = length rs"
    unfolding rs_def by auto
  obtain p m d where t: "coerceThresholds (passing st) (merit st) (distinction st) = (p, m, d)"
    by (cases "coerceThresholds (passing st) (merit st) (distinction st)")
  have r: "generateReport ts ok st =
      (Generated,
       (if trim (title st) = [] then st\<lparr>title := ''Mid-Term Politics Grades Report''\<rparr> else st)
         \<lparr>overallSummary := [overall_record ts p m d rs],
          groupSummary := groupArr ts p m d groups, reportGenerated := True\<rparr>)"
    using ok rows g(1) by (auto simp: generateReport_def Let_def t rs_def[symmetric])
  show "fst (generateReport ts ok st) = Generated" by (simp add: r)
  show "sorted (map Group (groupSummary (snd (generateReport ts ok st))))"
    by (simp add: r groupArr_labels)
  show "distinct (map Group (groupSummary (snd (generateReport ts ok st))))"
    using Object_keys_distinct[OF g(3)] by (simp add: r groupArr_labels)
  show "set (map Group (groupSummary (snd (generateReport ts ok st)))) = set (map group rs)"
    using g(2) by (simp add: r groupArr_labels)
  show "sum_list (map N (groupSummary (snd (generateReport ts ok st)))) = length rs"
    using groupArr_total[OF g(3)] g(4) by (simp add: r)
  show "map N (overallSummary (snd (generateReport ts ok st))) = [length rs]"
    by (simp add: r overall_record_def)
qed

lemma generateReport_TypeError:
  assumes "fst (generateReport ts ok st) = TypeError"
  shows "set (map group (coerce_rows ts (gradeCol st) (groupCol st) (data st)))
         \<inter> set Object_prototype_names \<noteq> {}"
  using assms forEach_rows_None[of "[]" "coerce_rows ts (gradeCol st) (groupCol st) (data st)"]
  by (auto simp: generateReport_def Let_def split: if_splits prod.splits option.splits)

text \<open>The variant \<^verbatim>\<open>part_000\<close> lists the groups in the order of \<open>Object.keys\<close>.\<close>

lemma groupArr0_labels:
  "map Group0 (groupArr0 ts p m d groups) = Object_keys groups"
  by (simp add: groupArr0_def group_record0_def Let_def comp_def)

lemma Object_keys_unsorted_example:
  "Object_keys [(''B'', [Fin 65]), (''A'', [Fin 45])] = [''B'', ''A'']"
  by (simp add: Object_keys_def is_array_index_def is_digit_def)

section \<open>The claims\<close>

subsection \<open>C1: the worked example\<close>

lemma Math_sqrt_250: "Math_sqrt (Fin 250) = Fin (8901020307485223 / 562949953421312)"
proof -
  have "Math_sqrt (Fin 250) = Fin (of_int 8901020307485223 * pow2 (3 - 52))"
    by (rule Math_sqrt_eqI) (simp_all add: pow2_def)
  then show ?thesis by (simp add: pow2_def)
qed

lemma fl_quarters: "fl (1 / 4) = Fin (1 / 4)" "fl (3 / 4) = Fin (3 / 4)"
  using fl_exact[of 1 "- 2"] fl_exact[of 3 "- 2"] by (simp_all add: pow2_def)

lemma example_coerce_rows: "coerce_rows ts ''Grade'' ''Group'' example_data = example_rows"
  by (simp add: example_data_def example_rows_def rows_eval string_eval)

lemma example_data_nonempty: "example_data \<noteq> []"
  by (simp add: example_data_def)

lemma example_rows_length: "length example_rows = 4"
  by (simp add: example_rows_def)

lemma example_groups:
  "forEach_rows [] example_rows = Some [(''A'', [Fin 35, Fin 45]), (''B'', [Fin 65, Fin 75])]"
  by (simp add: example_rows_def forEach_step_def Object_prototype_names_def)

lemma example_mean: "mean [Fin 35, Fin 45, Fin 65, Fin 75] = Fin 55"
  by (simp add: mean_def)

lemma example_sd: "sd [Fin 35, Fin 45, Fin 65, Fin 75] = Fin (8901020307485223 / 562949953421312)"
  by (simp add: sd_def example_mean js_sub_def Math_sqrt_250)

lemma example_rates:
  "rate ts (Suc (Suc (Suc 0))) (Suc (Suc (Suc (Suc 0)))) = ''75.0''"
  "rate ts (Suc 0) (Suc (Suc (Suc (Suc 0)))) = ''25.0''"
  by (simp_all add: rate_def percent_def fl_quarters toFixed_def toFixed_int_def)

lemma example_mean_str: "toFixed ts 2 (Fin 55) = ''55.00''"
  by (simp add: toFixed_def toFixed_int_def)

lemma example_sd_str: "toFixed ts 2 (Fin (8901020307485223 / 562949953421312)) = ''15.81''"
  by (simp add: toFixed_def toFixed_int_def)

lemma example_overall_record:
  "overall_record ts (Fin 40) (Fin 60) (Fin 70) example_rows =
     \<lparr> N = 4, Passing_Count = 3, Failed_Count = 1, Passing_Rate = ''75.0'',
       Merit_Rate = ''25.0'', Distinction_Rate = ''25.0'', Overall_Passing_Rate_40 = ''75.0'',
       Pass_40_59_Count = 1, Merit_60_69_Count = 1, Distinction_70_Count = 1,
       Mean = ''55.00'', SD = ''15.81'', Max_grade = Fin 75, Min_grade = Fin 35 \<rparr>"
  by (simp add: overall_record_def example_rows_def passCount_def meritCount_def distCount_def
        failCount_def passBandCount_def meritBandCount_def distBandCount_def
        overallPassingRateFixed_def grades_def example_mean example_sd example_rates
        example_mean_str example_sd_str Math_max_def Math_min_def)

lemma example_thresholds: "coerceThresholds (Fin 40) (Fin 60) (Fin 70) = (Fin 40, Fin 60, Fin 70)"
  by (simp add: coerceThresholds_fixed)

text \<open>
  Claim C1, as the program computes it. For the grades 35, 45, 65, 75 and the thresholds
  (40, 60, 70) the overall summary has N = 4, 3 passing and 1 failed, one grade in each of
  the merit and distinction ranges and in each fixed band, the rates 75.0, 25.0 and 25.0,
  the fixed overall passing rate 75.0, mean 55.00, maximum 75 and minimum 35. The population
  standard deviation is \<open>sqrt 250\<close>, which prints as 15.81 (not 16.20).
\<close>

theorem example_overall_summary:
  "overallSummary (snd (generateReport ts True example_state)) =
     [\<lparr> N = 4, Passing_Count = 3, Failed_Count = 1, Passing_Rate = ''75.0'',
        Merit_Rate = ''25.0'', Distinction_Rate = ''25.0'', Overall_Passing_Rate_40 = ''75.0'',
        Pass_40_59_Count = 1, Merit_60_69_Count = 1, Distinction_70_Count = 1,
        Mean = ''55.00'', SD = ''15.81'', Max_grade = Fin 75, Min_grade = Fin 35 \<rparr>]
   \<and> meritCount (Fin 60) (Fin 70) example_rows = 1
   \<and> distCount (Fin 70) example_rows = 1"
  by (simp add: generateReport_def example_state_def Let_def example_data_nonempty
        example_coerce_rows example_rows_length example_thresholds example_overall_record
        example_groups trim_def is_ws_def)
     (simp add: example_rows_def meritCount_def distCount_def)

text \<open>
  Claim C1 as stated gives the standard deviation of the example as 16.20. The \<open>SD\<close>
  field the program produces for the example is not that string.
\<close>

theorem example_sd_not_16_20:
  "map SD (overallSummary (snd (generateReport (\<lambda>_. []) True example_state))) \<noteq> [''16.20'']"
  by (simp add: generateReport_def example_state_def Let_def example_data_nonempty
        example_coerce_rows example_rows_length example_thresholds example_overall_record
        example_groups trim_def is_ws_def)

subsection \<open>C2: numeric coercion\<close>

text \<open>
  Claim C2 says that every row entering the aggregation has a finite grade. A numeric cell
  is returned by \<open>parseNumber\<close> as it is, and the row filter removes \<open>NaN\<close> only, so a
  numeric cell holding \<open>Infinity\<close> enters the aggregation: for the single row
  \<open>{Grade: Infinity, Group: "A"}\<close> the coerced row list holds the grade \<open>Infinity\<close>, the
  report is generated, and its mean prints as \<open>Infinity\<close> and its standard deviation as
  \<open>NaN\<close>.
\<close>

theorem infinite_grade_enters_aggregation:
  "(let st = \<lparr> data = [\<lambda>k. if k = ''Grade'' then NumV PInf else StrV ''A''],
                  gradeCol = ''Grade'', groupCol = ''Group'', title = ''Report'',
                  passing = Fin 40, merit = Fin 60, distinction = Fin 70,
                  overallSummary = [], groupSummary = [], reportGenerated = False \<rparr>
    in coerce_rows (\<lambda>_. []) (gradeCol st) (groupCol st) (data st)
         = [\<lparr> grade = PInf, group = ''A'' \<rparr>]
       \<and> \<not> isFinite PInf
       \<and> fst (generateReport (\<lambda>_. []) True st) = Generated
       \<and> map (\<lambda>s. (N s, Mean s, SD s)) (overallSummary (snd (generateReport (\<lambda>_. []) True st)))
         = [(1, ''Infinity'', ''NaN'')])"
  by (simp add: Let_def report_eval rows_eval string_eval)

subsection \<open>C3: the threshold normalizer\<close>

text \<open>
  Claim C3. \<open>coerceThresholds\<close> replaces a non-finite passing, merit or distinction
  threshold by 40, 60 or 70, clamps passing to [0, 100], merit to [passing, 100] and
  distinction to [merit, 100]; the result is finite with
  \<open>0 \<le> passing \<le> merit \<le> distinction \<le> 100\<close>; applying it to its own result, or to any
  triple that is already ordered within [0, 100], returns that triple unchanged.
\<close>

theorem coerceThresholds_normalizes:
  "(let p0 = (case a of Fin v \<Rightarrow> v | _ \<Rightarrow> 40);
        m0 = (case b of Fin v \<Rightarrow> v | _ \<Rightarrow> 60);
        d0 = (case c of Fin v \<Rightarrow> v | _ \<Rightarrow> 70);
        p = max 0 (min 100 p0);
        m = max p (min 100 m0);
        d = max m (min 100 d0)
    in coerceThresholds a b c = (Fin p, Fin m, Fin d)
       \<and> 0 \<le> p \<and> p \<le> m \<and> m \<le> d \<and> d \<le> 100
       \<and> coerceThresholds (Fin p) (Fin m) (Fin d) = (Fin p, Fin m, Fin d))
   \<and> (0 \<le> p' \<and> p' \<le> m' \<and> m' \<le> d' \<and> d' \<le> 100
        \<longrightarrow> coerceThresholds (Fin p') (Fin m') (Fin d') = (Fin p', Fin m', Fin d'))"
  by (cases a; cases b; cases c) (simp_all add: coerceThresholds_def Let_def max_def min_def)

theorem coerceThresholds_normalizes_witness:
  "coerceThresholds (Fin 150) NaN (Fin 65) = (Fin 100, Fin 100, Fin 100)
   \<and> coerceThresholds (Fin 40) (Fin 60) (Fin 70) = (Fin 40, Fin 60, Fin 70)"
  using coerceThresholds_normalizes[of "Fin 150" NaN "Fin 65" 40 60 70]
  by (simp add: Let_def)

subsection \<open>C4: no numeric grade, and the other reported errors\<close>



subsection \<open>C5: one group summary per group label, in ascending order\<close>

text \<open>
  Claim C5 says that every distinct group label gets exactly one group summary. For the
  single row \<open>{Grade: 50, Group: "constructor"}\<close> the grouping loop reads the inherited
  property \<open>groups["constructor"]\<close>, finds a function instead of an array and throws a
  \<open>TypeError\<close>: the call ends without setting the group summary, so the label
  \<open>constructor\<close> has no record. (For rows without such a label the group summaries are
  sorted, distinct and cover the labels: \<open>generateReport_groups\<close>.)
\<close>

theorem prototype_group_label_throws:
  "(let st = \<lparr> data = [\<lambda>k. if k = ''Grade'' then NumV (Fin 50) else StrV ''constructor''],
                  gradeCol = ''Grade'', groupCol = ''Group'', title = ''Report'',
                  passing = Fin 40, merit = Fin 60, distinction = Fin 70,
                  overallSummary = [], groupSummary = [], reportGenerated = False \<rparr>
    in map group (coerce_rows (\<lambda>_. []) (gradeCol st) (groupCol st) (data st)) = [''constructor'']
       \<and> fst (generateReport (\<lambda>_. []) True st) = TypeError
       \<and> groupSummary (snd (generateReport (\<lambda>_. []) True st)) = [])"
  by (simp add: Let_def report_eval rows_eval string_eval)

subsection \<open>C6: the population standard deviation\<close>

text \<open>
  The roundings of the computation for three grades \<open>55.3\<close> (the sum of the three grades is
  rounded down, so the mean is one unit in the last place below \<open>55.3\<close>), and for the two
  grades \<open>0\<close> and \<open>2^-600\<close> (the squared deviations underflow to zero).
\<close>

lemma c6_parse: "fl (553 / 10) = Fin (3891391553024819 / 70368744177664)"
  by (subst fl_normal(1)[where e="5"]) (simp_all add: pow2_def round_half_even_def)

lemma c6_s1: "fl (3891391553024819 / 70368744177664) = Fin (3891391553024819 / 70368744177664)"
  by (subst fl_normal(1)[where e="5"]) (simp_all add: pow2_def round_half_even_def)

lemma c6_s2: "fl (3891391553024819 / 35184372088832) = Fin (3891391553024819 / 35184372088832)"
  by (subst fl_normal(1)[where e="6"]) (simp_all add: pow2_def round_half_even_def)

lemma c6_s3: "fl (11674174659074457 / 70368744177664) = Fin (1459271832384307 / 8796093022208)"
  by (subst fl_normal(1)[where e="7"]) (simp_all add: pow2_def round_half_even_def)

lemma c6_mean: "fl (1459271832384307 / 26388279066624) = Fin (7782783106049637 / 140737488355328)"
  by (subst fl_normal(1)[where e="5"]) (simp_all add: pow2_def round_half_even_def)

lemma c6_dev: "fl (1 / 140737488355328) = Fin (1 / 140737488355328)"
  by (subst fl_normal(1)[where e="-47"]) (simp_all add: pow2_def round_half_even_def)

lemma c6_sq: "fl (1 / 19807040628566084398385987584) = Fin (1 / 19807040628566084398385987584)"
  by (subst fl_normal(1)[where e="-94"]) (simp_all add: pow2_def round_half_even_def)

lemma c6_t2: "fl (1 / 9903520314283042199192993792) = Fin (1 / 9903520314283042199192993792)"
  by (subst fl_normal(1)[where e="-93"]) (simp_all add: pow2_def round_half_even_def)

lemma c6_t3: "fl (3 / 19807040628566084398385987584) = Fin (3 / 19807040628566084398385987584)"
  by (subst fl_normal(1)[where e="-93"]) (simp_all add: pow2_def round_half_even_def)

lemma c6_sqrt: "Math_sqrt (Fin (1 / 19807040628566084398385987584)) = Fin (1 / 140737488355328)"
proof -
  have "Math_sqrt (Fin (1 / 19807040628566084398385987584)) = Fin (of_int 4503599627370496 * pow2 (-47 - 52))"
    by (rule Math_sqrt_eqI) (simp_all add: pow2_def)
  then show ?thesis by (simp add: pow2_def)
qed


lemma c6_mean_eval: "mean [Fin (3891391553024819 / 70368744177664), Fin (3891391553024819 / 70368744177664), Fin (3891391553024819 / 70368744177664)] = Fin (7782783106049637 / 140737488355328)"
  by (simp add: mean_def c6_s1 c6_s2 c6_s3 c6_mean)

lemma c6_sd_eval: "sd [Fin (3891391553024819 / 70368744177664), Fin (3891391553024819 / 70368744177664), Fin (3891391553024819 / 70368744177664)] = Fin (1 / 140737488355328)"
  by (simp add: sd_def c6_mean_eval js_sub_def fl_minus c6_dev c6_sq c6_t2 c6_t3 c6_sqrt)

lemma c6_tiny_half: "fl (1 / 8299031137761985917024815727382322302024892464484873799991314659381305622825816292799414097894207588576395773222601578364790302150823550615773749668227927374122363606803019047370752) = Fin (1 / 8299031137761985917024815727382322302024892464484873799991314659381305622825816292799414097894207588576395773222601578364790302150823550615773749668227927374122363606803019047370752)"
  by (subst fl_normal(1)[where e="-601"]) (simp_all add: pow2_def round_half_even_def)

lemma c6_tiny: "fl (1 / 4149515568880992958512407863691161151012446232242436899995657329690652811412908146399707048947103794288197886611300789182395151075411775307886874834113963687061181803401509523685376) = Fin (1 / 4149515568880992958512407863691161151012446232242436899995657329690652811412908146399707048947103794288197886611300789182395151075411775307886874834113963687061181803401509523685376)"
  by (subst fl_normal(1)[where e="-600"]) (simp_all add: pow2_def round_half_even_def)

lemma c6_tiny_sq: "fl (1 / 68873917825543002472269510784210541934319698981794759686932947265602962764966982477589938148944184693145483676127846351154339709163266644099966439530914869378638013886623963523538719586080220495625868257676226104925382741072962276839570295064151866338940735102957735914858314351130805523188963089910591498223946850985085451568910064821275657743654044564145045504) = Fin 0"
proof -
  have "fl (1 / 68873917825543002472269510784210541934319698981794759686932947265602962764966982477589938148944184693145483676127846351154339709163266644099966439530914869378638013886623963523538719586080220495625868257676226104925382741072962276839570295064151866338940735102957735914858314351130805523188963089910591498223946850985085451568910064821275657743654044564145045504) = Fin (of_int 0 * pow2 (- 1074))"
    by (rule fl_subnormal_eqI) (simp_all add: pow2_def)
  then show ?thesis by (simp add: pow2_def)
qed

lemma c6_tiny_sd: "sd [Fin 0, Fin (1 / 4149515568880992958512407863691161151012446232242436899995657329690652811412908146399707048947103794288197886611300789182395151075411775307886874834113963687061181803401509523685376)] = Fin 0"
  by (simp add: sd_def mean_def js_sub_def fl_minus c6_tiny c6_tiny_half c6_tiny_sq)

lemma c6_parseNumber: "parseNumber ts (StrV ''55.3'') = Fin (3891391553024819 / 70368744177664)"
  by (simp add: parseNumber_def string_eval c6_parse)

lemma equal_grades_rows:
  "grades (coerce_rows ts ''Grade'' ''Group'' equal_grades_data)
     = [Fin (3891391553024819 / 70368744177664), Fin (3891391553024819 / 70368744177664), Fin (3891391553024819 / 70368744177664)]"
  by (simp add: equal_grades_data_def grades_def coerce_rows_def isNaN_def c6_parseNumber)




subsection \<open>C7: rates and counts\<close>

lemma c7_div: "fl (23 / 80) = Fin (2589569785738035 / 9007199254740992)"
  by (subst fl_normal(1)[where e="-2"]) (simp_all add: pow2_def round_half_even_def)

lemma c7_mul: "fl (64739244643450875 / 2251799813685248) = Fin (8092405580431359 / 281474976710656)"
  by (subst fl_normal(1)[where e="4"]) (simp_all add: pow2_def round_half_even_def)


lemma c7_percent: "percent 23 80 = Fin (8092405580431359 / 281474976710656)"
  by (simp add: percent_def c7_div c7_mul)

lemma c7_rate: "rate ts 23 80 = ''28.7''"
  by (simp add: rate_def c7_percent toFixed_def toFixed_int_def)

lemma c7_spec_rate: "spec_rate ts 23 80 = ''28.8''"
  by (simp add: spec_rate_def spec_round_half_away_def toFixed_def toFixed_int_def)

lemma boundary_rows:
  "coerce_rows ts ''Grade'' ''Group'' boundary_data
     = replicate 23 \<lparr> grade = Fin 50, group = ''A'' \<rparr> @ replicate 57 \<lparr> grade = Fin 10, group = ''A'' \<rparr>"
  by (simp add: boundary_data_def rows_eval string_eval)

lemma boundary_data_nonempty: "boundary_data \<noteq> []"
  by (simp add: boundary_data_def)

lemma boundary_passing:
  "Passing_Count (overall_record ts (Fin 40) (Fin 60) (Fin 70)
      (replicate 23 \<lparr> grade = Fin 50, group = ''A'' \<rparr> @ replicate 57 \<lparr> grade = Fin 10, group = ''A'' \<rparr>)) = 23"
  "N (overall_record ts (Fin 40) (Fin 60) (Fin 70)
      (replicate 23 \<lparr> grade = Fin 50, group = ''A'' \<rparr> @ replicate 57 \<lparr> grade = Fin 10, group = ''A'' \<rparr>)) = 80"
  "Passing_Rate (overall_record ts (Fin 40) (Fin 60) (Fin 70)
      (replicate 23 \<lparr> grade = Fin 50, group = ''A'' \<rparr> @ replicate 57 \<lparr> grade = Fin 10, group = ''A'' \<rparr>)) = ''28.7''"
  by (simp_all add: overall_record_def passCount_def c7_rate)




subsection \<open>C8: the fixed bands do not depend on the thresholds\<close>

text \<open>
  Claim C8. For the same rows, columns, title and dialog answer, and any two threshold
  triples, the two runs of \<open>generateReport\<close> end the same way and agree, in the overall
  summary and in every group summary, on N, the overall passing rate at 40, the three
  fixed band counts, the mean, the standard deviation, the maximum and the minimum (and
  on the group labels).
\<close>

theorem fixed_band_noninterference:
  "(let r = generateReport ts ok (st\<lparr>passing := a, merit := b, distinction := c\<rparr>);
        r' = generateReport ts ok (st\<lparr>passing := a', merit := b', distinction := c'\<rparr>)
    in fst r = fst r'
       \<and> map (\<lambda>s. (N s, Overall_Passing_Rate_40 s, Pass_40_59_Count s, Merit_60_69_Count s,
                     Distinction_70_Count s, Mean s, SD s, Max_grade s, Min_grade s))
              (overallSummary (snd r))
         = map (\<lambda>s. (N s, Overall_Passing_Rate_40 s, Pass_40_59_Count s, Merit_60_69_Count s,
                       Distinction_70_Count s, Mean s, SD s, Max_grade s, Min_grade s))
              (overallSummary (snd r'))
       \<and> map (\<lambda>s. (Group s, N s, Overall_Passing_Rate_40 s, Pass_40_59_Count s,
                     Merit_60_69_Count s, Distinction_70_Count s, Mean s, SD s, Max_grade s,
                     Min_grade s))
              (groupSummary (snd r))
         = map (\<lambda>s. (Group s, N s, Overall_Passing_Rate_40 s, Pass_40_59_Count s,
                       Merit_60_69_Count s, Distinction_70_Count s, Mean s, SD s, Max_grade s,
                       Min_grade s))
              (groupSummary (snd r')))"
  by (auto simp: generateReport_def Let_def overall_record_def groupArr_def group_record_def
           split: prod.splits option.splits)

subsection \<open>C9: the group sizes add up to the overall size\<close>

text \<open>
  Claim C9 says that the N values of the group summaries add up to the overall N whenever
  at least one grade coerces. For the two rows \<open>{Grade: 50, Group: "A"}\<close> and
  \<open>{Grade: 70, Group: "toString"}\<close> the overall summary is set with N = 2, then the
  grouping loop throws on the inherited property \<open>groups["toString"]\<close> and the group
  summary stays as it was (empty): the group sizes add up to 0. (For rows without such a
  label the sizes add up: \<open>generateReport_groups\<close>.)
\<close>

theorem group_counts_missing_after_throw:
  "(let st = \<lparr> data = [\<lambda>k. if k = ''Grade'' then NumV (Fin 50) else StrV ''A'',
                          \<lambda>k. if k = ''Grade'' then NumV (Fin 70) else StrV ''toString''],
                  gradeCol = ''Grade'', groupCol = ''Group'', title = ''Report'',
                  passing = Fin 40, merit = Fin 60, distinction = Fin 70,
                  overallSummary = [], groupSummary = [], reportGenerated = False \<rparr>
    in fst (generateReport (\<lambda>_. []) True st) = TypeError
       \<and> map N (overallSummary (snd (generateReport (\<lambda>_. []) True st))) = [2]
       \<and> sum_list (map N (groupSummary (snd (generateReport (\<lambda>_. []) True st)))) = 0)"
  by (simp add: Let_def report_eval rows_eval string_eval)

subsection \<open>C10: the two variants of the generator\<close>

text \<open>
  Claim C10. For finite thresholds with \<open>0 \<le> passing \<le> merit \<le> distinction \<le> 100\<close> and
  the same rows and columns, \<^verbatim>\<open>App.js\<close> (which normalizes the thresholds first) and
  \<^verbatim>\<open>part_000\<close> (which does not) compute the same pass, fail, merit and distinction
  counts, the same mean, standard deviation, maximum and minimum, both generate a report or
  neither does, and the overall summaries they set agree on N, the two counts, the three
  rates, the mean, the standard deviation, the maximum and the minimum.
\<close>

theorem variants_agree_overall:
  assumes "0 \<le> p" "p \<le> m" "m \<le> d" "d \<le> 100"
  shows
    "(let rows = coerce_rows ts gc grc dt;
          (p', m', d') = coerceThresholds (Fin p) (Fin m) (Fin d);
          r = generateReport ts ok
                \<lparr> data = dt, gradeCol = gc, groupCol = grc, title = ttl,
                  passing = Fin p, merit = Fin m, distinction = Fin d,
                  overallSummary = [], groupSummary = [], reportGenerated = False \<rparr>;
          r0 = generateReport0 ts ok
                \<lparr> data = dt, gradeCol = gc, groupCol = grc, title = ttl,
                  passing = Fin p, merit = Fin m, distinction = Fin d,
                  overallSummary = [], groupSummary = [], reportGenerated = False \<rparr>
      in passCount p' rows = passCount0 (Fin p) rows
         \<and> failCount p' rows = failCount0 (Fin p) rows
         \<and> meritCount m' d' rows = meritCount0 (Fin m) (Fin d) rows
         \<and> distCount d' rows = distCount0 (Fin d) rows
         \<and> mean (grades rows) = mean0 (grades0 rows)
         \<and> sd (grades rows) = sd0 (grades0 rows)
         \<and> Math_max (grades rows) = Math_max (grades0 rows)
         \<and> Math_min (grades rows) = Math_min (grades0 rows)
         \<and> (fst r = Generated) = (fst r0 = Generated)
         \<and> map (\<lambda>s. (N s, Passing_Count s, Failed_Count s, Passing_Rate s, Merit_Rate s,
                       Distinction_Rate s, Mean s, SD s, Max_grade s, Min_grade s))
                (overallSummary (snd r))
           = map (\<lambda>s. (N0 s, Passing_Count0 s, Failed_Count0 s, Passing_Rate0 s, Merit_Rate0 s,
                         Distinction_Rate0 s, Mean0 s, SD0 s, Max_grade0 s, Min_grade0 s))
                (overallSummary (snd r0)))"
  by (auto simp: coerceThresholds_fixed[OF assms] generateReport_def generateReport0_def Let_def
        overall_record_def overall_record0_def passCount_def passCount0_def failCount_def
        failCount0_def meritCount_def meritCount0_def distCount_def distCount0_def mean_def
        mean0_def sd_def sd0_def grades_def grades0_def rate_def percent_def
      split: prod.splits option.splits)

theorem variants_agree_overall_witness:
  "(0::real) \<le> 40 \<and> (40::real) \<le> 60 \<and> (60::real) \<le> 70 \<and> (70::real) \<le> 100
   \<and> sd (grades (coerce_rows (\<lambda>_. []) ''Grade'' ''Group'' [\<lambda>k. NumV (Fin 50)]))
     = sd0 (grades0 (coerce_rows (\<lambda>_. []) ''Grade'' ''Group'' [\<lambda>k. NumV (Fin 50)]))"
  using variants_agree_overall[of 40 60 70 "\<lambda>_. []" "''Grade''" "''Group''"
      "[\<lambda>k. NumV (Fin 50)]" True "''T''"]
  by (simp add: Let_def split: prod.splits)

end
